theory Spec2Isabelle
  imports Complex_Main "HOL-Library.Sublist" "HOL-Library.Multiset"
begin

section \<open>Common data: exceptions and Python string operations\<close>

text \<open>
  Exceptions are values. The constructors carry the names of the Python
  exceptions the sources raise; \<open>CollaboratorError msg\<close> is an exception raised
  inside an external library or service (the image API, the HTTP download, the
  media library), with \<open>msg\<close> the text \<open>str(e)\<close> gives for it.

  Python floats are modelled by exact reals: rounding is outside the model.
  Strings are lists of 8-bit characters, so the string operations below are
  those of Python on ASCII text.
\<close>

datatype error =
    FileNotFoundError string
  | ValueError string
  | RuntimeError string
  | ZeroDivisionError
  | Exception string
  | CollaboratorError string

text \<open>\<open>str.lower()\<close>: the letters A to Z are moved to a to z.\<close>

definition lower_char :: "char \<Rightarrow> char" where
  "lower_char c =
     (let n = (of_char c :: nat) in if 65 \<le> n \<and> n \<le> 90 then char_of (n + 32) else c)"

definition lower :: "string \<Rightarrow> string" where
  "lower s = map lower_char s"

text \<open>\<open>s.endswith(suf)\<close> is \<^const>\<open>suffix\<close>, \<open>sub in s\<close> is \<^const>\<open>sublist\<close>.\<close>

definition endswith :: "string \<Rightarrow> string \<Rightarrow> bool" where
  "endswith s suf = suffix suf s"

text \<open>
  \<open>str.isspace()\<close> on one character: tab, line feed, vertical tab, form feed,
  carriage return, the four separators 0x1c to 0x1f, and the space.
\<close>

definition isspace :: "char \<Rightarrow> bool" where
  "isspace c = (let n = (of_char c :: nat) in (9 \<le> n \<and> n \<le> 13) \<or> (28 \<le> n \<and> n \<le> 32))"

text \<open>
  \<open>str.split()\<close> without arguments: runs of whitespace separate the words, and
  leading and trailing whitespace gives no empty word.
\<close>

function str_split :: "string \<Rightarrow> string list" where
  "str_split s =
     (case dropWhile isspace s of
        [] \<Rightarrow> []
      | c # cs \<Rightarrow>
          takeWhile (\<lambda>x. \<not> isspace x) (c # cs) # str_split (dropWhile (\<lambda>x. \<not> isspace x) (c # cs)))"
  by pat_completeness auto
termination
proof (relation "measure length")
  show "wf (measure length)" by simp
next
  fix s :: string and c cs
  assume a: "dropWhile isspace s = c # cs"
  have "\<not> isspace c"
    using a hd_dropWhile [of isspace s] by auto
  then have "length (dropWhile (\<lambda>x. \<not> isspace x) (c # cs)) \<le> length cs"
    by (simp add: length_dropWhile_le)
  moreover have "length (c # cs) \<le> length s"
    using length_dropWhile_le [of isspace s] a by simp
  ultimately show "(dropWhile (\<lambda>x. \<not> isspace x) (c # cs), s) \<in> measure length"
    by simp
qed

declare str_split.simps [simp del]

text \<open>\<open>sep.join(xs)\<close>.\<close>

fun join :: "string \<Rightarrow> string list \<Rightarrow> string" where
  "join sep [] = []"
| "join sep [x] = x"
| "join sep (x # y # ys) = x @ sep @ join sep (y # ys)"

section \<open>SegmentPlanner\<close>

subsection \<open>\<open>AudioProcessor.generate_timestamps\<close>\<close>

text \<open>
  \<open>range(num_segments)\<close> has \<open>nat num_segments\<close> elements; the loop appends
  \<open>i * segment_duration\<close> for each \<open>i\<close> in it.
\<close>

definition generate_timestamps :: "real \<Rightarrow> int \<Rightarrow> error + real list" where
  "generate_timestamps total_duration num_segments =
     (if num_segments \<le> 0 then Inl (ValueError ''Number of segments must be positive'')
      else
        let segment_duration = total_duration / real_of_int num_segments
        in Inr (map (\<lambda>i. real i * segment_duration) [0..<nat num_segments]))"

subsection \<open>\<open>ProcessingThread._split_script\<close>\<close>

text \<open>
  \<open>len(words) // num_segments\<close> raises \<open>ZeroDivisionError\<close> for
  \<open>num_segments = 0\<close>. For a negative \<open>num_segments\<close> the quotient is computed
  and never used, since \<open>range(num_segments)\<close> is empty; for a positive one
  floor division on ints is division on naturals. All slice bounds are
  non-negative there, so \<open>words[a:]\<close> is \<open>drop a words\<close> and \<open>words[a:a + k]\<close> is
  \<open>take k (drop a words)\<close>.
\<close>

definition split_script :: "string \<Rightarrow> int \<Rightarrow> error + string list" where
  "split_script script num_segments =
     (let words = str_split script in
      if num_segments = 0 then Inl ZeroDivisionError
      else
        let words_per_segment = length words div nat num_segments
        in Inr (map (\<lambda>i.
                  let start_idx = i * words_per_segment
                  in if i = nat num_segments - 1
                     then join '' '' (drop start_idx words)
                     else join '' '' (take words_per_segment (drop start_idx words)))
                [0..<nat num_segments]))"

section \<open>BrollReorganizer: the playlist of \<open>ProcessingThread.process_broll\<close>\<close>

text \<open>
  \<open>random.shuffle(x)\<close> is the Fisher-Yates loop of the standard library:
  for \<open>i\<close> from \<open>len(x) - 1\<close> down to 1 it draws \<open>j = randbelow(i + 1)\<close> and swaps
  \<open>x[i]\<close> and \<open>x[j]\<close>. The random source is the parameter \<open>rand\<close>: the draw of
  round \<open>i\<close> is \<open>rand i mod (i + 1)\<close>, so every index from 0 to \<open>i\<close> is a
  possible draw and no other value is.
\<close>

definition swap :: "nat \<Rightarrow> nat \<Rightarrow> 'a list \<Rightarrow> 'a list" where
  "swap i j x = x[i := x ! j, j := x ! i]"

definition shuffle :: "(nat \<Rightarrow> nat) \<Rightarrow> 'a list \<Rightarrow> 'a list" where
  "shuffle rand x = fold (\<lambda>i x. swap i (rand i mod Suc i) x) (rev [1..<length x]) x"

text \<open>
  The list \<open>all_clips\<close> that \<open>process_broll\<close> hands to \<open>concatenate_clips\<close>:
  the intro paths are appended one by one to \<open>intro_clips\<close> (when there are
  any), a copy of \<open>broll_paths\<close> is shuffled, and the two are concatenated.
\<close>

definition all_clips :: "(nat \<Rightarrow> nat) \<Rightarrow> string list \<Rightarrow> string list \<Rightarrow> string list" where
  "all_clips rand intro_paths broll_paths =
     (let intro_clips =
            (if intro_paths \<noteq> [] then foldl (\<lambda>clips path. clips @ [path]) [] intro_paths
             else []);
          shuffled_broll = shuffle rand broll_paths
      in intro_clips @ shuffled_broll)"

section \<open>DurationEstimator: \<open>AudioProcessor.get_duration\<close>\<close>

text \<open>
  The file system and the two decoders are parameters: \<open>path_exists\<close> is
  \<open>os.path.exists\<close>; \<open>wave_open\<close> gives the frame count and frame rate the
  \<open>wave\<close> module reads from the header, or \<open>None\<close> when it raises;
  \<open>ffmpeg_available\<close> is the flag set at construction; \<open>from_file\<close> gives
  \<open>len(audio)\<close> in milliseconds for \<open>AudioSegment.from_file\<close>, or \<open>None\<close> when
  that raises; \<open>getsize\<close> is \<open>os.path.getsize\<close>, \<open>None\<close> when it raises.
  The log records carry the level and the event in place of the formatted
  message.
\<close>

record audio_env =
  path_exists :: "string \<Rightarrow> bool"
  wave_open :: "string \<Rightarrow> (nat \<times> nat) option"
  ffmpeg_available :: bool
  from_file :: "string \<Rightarrow> nat option"
  getsize :: "string \<Rightarrow> nat option"

datatype log_record =
    Info_getting_duration string
  | Info_wav_duration real
  | Warning_wav_parsing_failed
  | Info_pydub_duration real
  | Warning_pydub_failed
  | Warning_using_estimated_duration real
  | Error_all_duration_methods_failed

text \<open>The last step: the estimate from the file size.\<close>

definition estimate_from_size :: "audio_env \<Rightarrow> string \<Rightarrow> (error + real) \<times> log_record list" where
  "estimate_from_size env audio_path =
     (case getsize env audio_path of
        None \<Rightarrow>
          (Inl (RuntimeError
             ''Cannot determine audio duration - FFmpeg is required for accurate audio processing''),
           [Error_all_duration_methods_failed])
      | Some file_size \<Rightarrow>
          let estimated_duration =
                (if endswith (lower audio_path) ''.mp3'' then real (file_size * 8) / (128 * 1000)
                 else if endswith (lower audio_path) ''.m4a'' then real (file_size * 8) / (256 * 1000)
                 else real (file_size * 8) / (128 * 1000))
          in (Inr estimated_duration, [Warning_using_estimated_duration estimated_duration]))"

text \<open>The middle step: pydub, when FFmpeg is available.\<close>

definition duration_from_pydub :: "audio_env \<Rightarrow> string \<Rightarrow> (error + real) \<times> log_record list" where
  "duration_from_pydub env audio_path =
     (if ffmpeg_available env then
        (case from_file env audio_path of
           Some ms \<Rightarrow> (Inr (real ms / 1000), [Info_pydub_duration (real ms / 1000)])
         | None \<Rightarrow>
             (let (r, l) = estimate_from_size env audio_path in (r, Warning_pydub_failed # l)))
      else estimate_from_size env audio_path)"

text \<open>
  The whole function. \<open>frames / float(rate)\<close> raises \<open>ZeroDivisionError\<close> for a
  zero rate, which the \<open>except Exception\<close> around the WAV step catches like
  any failure of \<open>wave.open\<close>.
\<close>

definition get_duration :: "audio_env \<Rightarrow> string \<Rightarrow> (error + real) \<times> log_record list" where
  "get_duration env audio_path =
     (if \<not> path_exists env audio_path then
        (Inl (FileNotFoundError (''Audio file not found: '' @ audio_path)),
         [Info_getting_duration audio_path])
      else if endswith (lower audio_path) ''.wav'' then
        (case wave_open env audio_path of
           Some (frames, rate) \<Rightarrow>
             if rate \<noteq> 0 then
               (Inr (real frames / real rate),
                [Info_getting_duration audio_path, Info_wav_duration (real frames / real rate)])
             else
               (let (r, l) = duration_from_pydub env audio_path
                in (r, Info_getting_duration audio_path # Warning_wav_parsing_failed # l))
         | None \<Rightarrow>
             (let (r, l) = duration_from_pydub env audio_path
              in (r, Info_getting_duration audio_path # Warning_wav_parsing_failed # l)))
      else
        (let (r, l) = duration_from_pydub env audio_path
         in (r, Info_getting_duration audio_path # l)))"

text \<open>
  Two file systems without any decoder, for the examples: in \<open>env0\<close> every
  path exists and every file is empty; in \<open>env1\<close> the file \<open>voice.m4a\<close> has
  32000 bytes, no other size can be read, and \<open>missing.mp3\<close> does not exist.
\<close>

definition env0 :: audio_env where
  "env0 = \<lparr>path_exists = (\<lambda>p. True), wave_open = (\<lambda>p. None), ffmpeg_available = False,
           from_file = (\<lambda>p. None), getsize = (\<lambda>p. Some 0)\<rparr>"

definition env1 :: audio_env where
  "env1 = \<lparr>path_exists = (\<lambda>p. p \<noteq> ''missing.mp3''), wave_open = (\<lambda>p. None),
           ffmpeg_available = False, from_file = (\<lambda>p. None),
           getsize = (\<lambda>p. if p = ''voice.m4a'' then Some 32000 else None)\<rparr>"

section \<open>PromptBuilder: \<open>OpenAIImageGenerator.create_scene_prompt\<close>\<close>

text \<open>\<open>str(n)\<close> for a natural number, and the line feed of the template.\<close>

definition digit :: "nat \<Rightarrow> char" where
  "digit n = char_of (48 + n)"

function str_nat :: "nat \<Rightarrow> string" where
  "str_nat n = (if n < 10 then [digit n] else str_nat (n div 10) @ [digit (n mod 10)])"
  by pat_completeness auto
termination
  by (relation "measure id") auto

declare str_nat.simps [simp del]

definition nl :: string where
  "nl = [CHR 0x0A]"

definition get_style_guidelines :: "string \<Rightarrow> string" where
  "get_style_guidelines style =
     (if style = ''Photorealistic''
        then ''Realistic proportions, natural textures, authentic environments''
      else if style = ''Cinematic''
        then ''Movie-like composition, dramatic angles, film color grading''
      else if style = ''Anime/Manga''
        then ''Japanese animation style, expressive features, vibrant colors''
      else if style = ''3D Render''
        then ''Pixar-like quality, smooth surfaces, ambient occlusion''
      else if style = ''Oil Painting''
        then ''Visible brush strokes, rich textures, classical composition''
      else if style = ''Watercolor''
        then ''Soft edges, flowing colors, paper texture visible''
      else if style = ''Comic Book''
        then ''Bold outlines, flat colors, dynamic poses, speech bubble ready''
      else if style = ''Digital Art''
        then ''Modern digital painting style, vibrant colors, fantasy elements ok''
      else ''High quality artistic rendering'')"

definition create_scene_prompt :: "string \<Rightarrow> string \<Rightarrow> string \<Rightarrow> nat \<Rightarrow> string" where
  "create_scene_prompt script_segment character_desc style scene_number =
     (let base_prompt =
            ''Create a '' @ lower style @ '' style image. '' @ nl @ nl @
            ''Main character: '' @ character_desc @ nl @ nl @
            ''Scene '' @ str_nat scene_number @ '' context: '' @ script_segment @ nl @ nl @
            ''Important guidelines:'' @ nl @
            ''- Maintain exact same character appearance as described'' @ nl @
            ''- '' @ get_style_guidelines style @ nl @
            ''- Professional quality suitable for video content'' @ nl @
            ''- Clear focal point on the main character'' @ nl @
            ''- Appropriate lighting and composition''
      in if style = ''Cinematic'' then
           base_prompt @ nl @ ''- Wide aspect ratio feeling, dramatic lighting''
             @ nl @ ''- Film grain texture, color grading like a movie''
         else if style = ''Photorealistic'' then
           base_prompt @ nl @ ''- Ultra realistic details, natural lighting''
             @ nl @ ''- Shot with professional camera, shallow depth of field''
         else base_prompt)"

section \<open>ImageGenerationPipeline\<close>

subsection \<open>\<open>OpenAIImageGenerator.generate_and_save_image\<close>\<close>

text \<open>
  The image service and the download are parameters. \<open>images_generate k prompt\<close>
  is what the call number \<open>k\<close> (counted from 0 over the whole run) of
  \<open>client.images.generate\<close> does: it raises an exception whose \<open>str\<close> is \<open>msg\<close>
  (\<open>Inl msg\<close>), or returns the image URL and the revised prompt.
  \<open>download_image url output_dir filename_prefix\<close> is the outcome of
  \<open>_download_image\<close>, with its own retries inside: the \<open>str\<close> of the exception
  it raises, or the path of the saved image.

  The state records the effects: the number of calls of the image service so
  far, the arguments of the \<open>time.sleep\<close> calls of \<open>generate_and_save_image\<close>
  in the order they were made, the generation history, the prompt records
  written (path, original prompt, revised prompt, style), the metadata files
  written, and the messages of the \<open>error_occurred\<close> signal. The time stamp of
  a history entry is left out, and writing a prompt record is taken to
  succeed. The fields of the records are the keys of the dictionaries in the
  source, with a prefix that keeps them apart from the variables.
\<close>

record image_env =
  images_generate :: "nat \<Rightarrow> string \<Rightarrow> string + (string \<times> string)"
  download_image :: "string \<Rightarrow> string \<Rightarrow> string \<Rightarrow> string + string"

record history_entry =
  h_original_prompt :: string
  h_revised_prompt :: string
  h_image_path :: string
  h_style :: string

record generated_image =
  img_path :: string
  img_timestamp :: real
  img_duration :: real

record metadata =
  meta_images :: "generated_image list"
  meta_script_path :: string
  meta_voice_path :: string
  meta_total_duration :: real
  meta_character_description :: string
  meta_style :: string
  meta_api :: string

record world =
  invocations :: nat
  sleeps :: "nat list"
  generation_history :: "history_entry list"
  prompt_files :: "(string \<times> string \<times> string \<times> string) list"
  metadata_files :: "(string \<times> metadata) list"
  error_occurred :: "string list"

text \<open>\<open>os.path.join\<close> of a directory and a file name, with the POSIX separator.\<close>

definition path_join :: "string \<Rightarrow> string \<Rightarrow> string" where
  "path_join dir name = dir @ ''/'' @ name"

text \<open>
  What the calls inside the \<open>try\<close> block give when the image service is called
  for the \<open>k\<close>-th time: the message of the exception raised by the service or
  by the download, or the image path and the revised prompt.
\<close>

definition try_outcome ::
  "image_env \<Rightarrow> string \<Rightarrow> string \<Rightarrow> string \<Rightarrow> nat \<Rightarrow> string + (string \<times> string)" where
  "try_outcome env prompt output_dir filename_prefix k =
     (case images_generate env k prompt of
        Inl msg \<Rightarrow> Inl msg
      | Inr (image_url, revised) \<Rightarrow>
          (case download_image env image_url output_dir filename_prefix of
             Inl msg \<Rightarrow> Inl msg
           | Inr image_path \<Rightarrow> Inr (image_path, revised)))"

text \<open>The body of the \<open>try\<close> block, with its effects.\<close>

definition try_body ::
  "image_env \<Rightarrow> string \<Rightarrow> string \<Rightarrow> string \<Rightarrow> string \<Rightarrow> world \<Rightarrow> (string + string) \<times> world" where
  "try_body env prompt output_dir filename_prefix style w =
     (let w1 = w\<lparr>invocations := invocations w + 1\<rparr> in
      case try_outcome env prompt output_dir filename_prefix (invocations w) of
        Inl msg \<Rightarrow> (Inl msg, w1)
      | Inr (image_path, revised) \<Rightarrow>
          (Inr image_path,
           w1\<lparr>generation_history := generation_history w1 @
                  [\<lparr>h_original_prompt = prompt, h_revised_prompt = revised,
                    h_image_path = image_path, h_style = style\<rparr>],
               prompt_files := prompt_files w1 @
                  [(path_join output_dir (filename_prefix @ ''_prompt.txt''),
                    prompt, revised, style)]\<rparr>))"

text \<open>\<open>"rate_limit" in str(e).lower()\<close>.\<close>

definition is_rate_limit :: "string \<Rightarrow> bool" where
  "is_rate_limit msg = sublist ''rate_limit'' (lower msg)"

text \<open>
  The loop \<open>for attempt in range(max_retries)\<close>, from the iteration \<open>attempt\<close>
  on. An exception of the \<open>try\<close> block is re-raised by the bare \<open>raise\<close> as it
  is (\<open>CollaboratorError msg\<close>); the statement after the loop raises a new
  \<open>Exception\<close>.
\<close>

function attempts ::
  "image_env \<Rightarrow> string \<Rightarrow> string \<Rightarrow> string \<Rightarrow> string \<Rightarrow> nat \<Rightarrow> nat \<Rightarrow> world
     \<Rightarrow> (error + string) \<times> world" where
  "attempts env prompt output_dir filename_prefix style max_retries attempt w =
     (if attempt < max_retries then
        (case try_body env prompt output_dir filename_prefix style w of
           (Inr image_path, w') \<Rightarrow> (Inr image_path, w')
         | (Inl msg, w') \<Rightarrow>
             if is_rate_limit msg then
               (let wait_time = min (30 * (attempt + 1)) 120
                in attempts env prompt output_dir filename_prefix style max_retries (attempt + 1)
                     (w'\<lparr>sleeps := sleeps w' @ [wait_time]\<rparr>))
             else if attempt = max_retries - 1 then (Inl (CollaboratorError msg), w')
             else attempts env prompt output_dir filename_prefix style max_retries (attempt + 1)
                    (w'\<lparr>sleeps := sleeps w' @ [5]\<rparr>))
      else (Inl (Exception ''Failed to generate image after all retries''), w))"
  by pat_completeness auto
termination
  by (relation "measure (\<lambda>(env, prompt, output_dir, filename_prefix, style, max_retries, attempt, w).
        max_retries - attempt)") auto

declare attempts.simps [simp del]

definition generate_and_save_image ::
  "image_env \<Rightarrow> string \<Rightarrow> string \<Rightarrow> string \<Rightarrow> string \<Rightarrow> nat \<Rightarrow> world
     \<Rightarrow> (error + string) \<times> world" where
  "generate_and_save_image env prompt output_dir filename_prefix style max_retries w =
     attempts env prompt output_dir filename_prefix style max_retries 0 w"

text \<open>
  Three image services for the examples, with a download that always
  succeeds: \<open>flaky\<close> answers its first two calls with a rate-limit error and
  every later call with an image; \<open>throttled\<close> answers every call with a
  rate-limit error; \<open>broken\<close> answers every call with another error.
\<close>

definition saves_image :: "string \<Rightarrow> string \<Rightarrow> string \<Rightarrow> string + string" where
  "saves_image url output_dir filename_prefix = Inr (path_join output_dir (filename_prefix @ ''.png''))"

definition flaky :: image_env where
  "flaky = \<lparr>images_generate =
              (\<lambda>k prompt. if k < 2 then Inl ''Error code: 429 - rate_limit_exceeded''
                          else Inr (''https://img/1'', prompt)),
            download_image = saves_image\<rparr>"

definition throttled :: image_env where
  "throttled = \<lparr>images_generate = (\<lambda>k prompt. Inl ''Error code: 429 - rate_limit_exceeded''),
                download_image = saves_image\<rparr>"

definition broken :: image_env where
  "broken = \<lparr>images_generate = (\<lambda>k prompt. Inl ''Error code: 400 - content_policy_violation''),
             download_image = saves_image\<rparr>"

definition world0 :: world where
  "world0 = \<lparr>invocations = 0, sleeps = [], generation_history = [], prompt_files = [],
             metadata_files = [], error_occurred = []\<rparr>"

subsection \<open>\<open>ProcessingThread.process_ai_images\<close>\<close>

text \<open>
  The surroundings of a run: the API key the key manager returns, the text of
  a file (\<open>open(script_path).read()\<close>, or the exception it raises), the audio
  environment, the image service, and the cancellation flag as the worker
  sees it when it polls it before segment \<open>i\<close> (counted from 0). The fields of
  \<open>params\<close> are the keys of \<open>self.params\<close>, prefixed.
\<close>

record run_env =
  api_key :: "string option"
  read_text :: "string \<Rightarrow> error + string"
  audio :: audio_env
  image :: image_env
  is_cancelled :: "nat \<Rightarrow> bool"

record params =
  param_script_path :: string
  param_voice_path :: string
  param_image_count :: int
  param_style :: string
  param_character_desc :: string
  param_output_dir :: string

text \<open>\<open>f"scene_{n:03d}"\<close>: the number, padded with zeros to three digits.\<close>

definition zfill :: "nat \<Rightarrow> string \<Rightarrow> string" where
  "zfill width s = replicate (width - length s) CHR ''0'' @ s"

definition scene_prefix :: "nat \<Rightarrow> string" where
  "scene_prefix n = ''scene_'' @ zfill 3 (str_nat n)"

text \<open>
  The loop over \<open>enumerate(zip(script_segments, timestamps))\<close>, from index \<open>i\<close>
  on, with the list of the remaining pairs. Any exception of
  \<open>generate_and_save_image\<close> is caught, and the loop goes on with the next
  segment. \<open>generate_and_save_image\<close> is called with its default of three
  attempts. The status and progress signals are not part of the model.
\<close>

fun generate_images ::
  "run_env \<Rightarrow> params \<Rightarrow> real list \<Rightarrow> real \<Rightarrow> nat \<Rightarrow> (string \<times> real) list
     \<Rightarrow> generated_image list \<Rightarrow> world \<Rightarrow> generated_image list \<times> world" where
  "generate_images env ps timestamps duration i [] generated_images w = (generated_images, w)"
| "generate_images env ps timestamps duration i ((segment, timestamp) # rest) generated_images w =
     (if is_cancelled env i then (generated_images, w)
      else
        let prompt = create_scene_prompt segment (param_character_desc ps) (param_style ps) (i + 1)
        in case generate_and_save_image (image env) prompt (param_output_dir ps)
                  (scene_prefix (i + 1)) (param_style ps) 3 w of
             (Inr image_path, w') \<Rightarrow>
               generate_images env ps timestamps duration (i + 1) rest
                 (generated_images @
                    [\<lparr>img_path = image_path, img_timestamp = timestamp,
                      img_duration =
                        (if i < length timestamps - 1 then timestamps ! (i + 1) - timestamp
                         else duration - timestamp)\<rparr>])
                 w'
           | (Inl e, w') \<Rightarrow>
               generate_images env ps timestamps duration (i + 1) rest generated_images w')"

text \<open>
  \<open>process_ai_images\<close> up to the point where the metadata file is written;
  the exports that follow it in the source are not part of the model. Without
  an API key (\<open>None\<close> or the empty string, both false for \<open>not api_key\<close>) the
  function emits \<open>error_occurred\<close> and returns. An exception of
  reading the script, of \<open>get_duration\<close>, of \<open>generate_timestamps\<close> or of
  \<open>_split_script\<close> leaves the function. Writing the metadata file is taken to
  succeed.
\<close>

definition process_ai_images :: "run_env \<Rightarrow> params \<Rightarrow> world \<Rightarrow> (error + unit) \<times> world" where
  "process_ai_images env ps w =
     (if api_key env = None \<or> api_key env = Some [] then
        (Inr (),
         w\<lparr>error_occurred := error_occurred w @
              [''No API key found. Please set your OpenAI API key.'']\<rparr>)
      else
          (case read_text env (param_script_path ps) of
             Inl e \<Rightarrow> (Inl e, w)
           | Inr script_text \<Rightarrow>
               (case fst (get_duration (audio env) (param_voice_path ps)) of
                  Inl e \<Rightarrow> (Inl e, w)
                | Inr duration \<Rightarrow>
                    (case generate_timestamps duration (param_image_count ps) of
                       Inl e \<Rightarrow> (Inl e, w)
                     | Inr timestamps \<Rightarrow>
                         (case split_script script_text (param_image_count ps) of
                            Inl e \<Rightarrow> (Inl e, w)
                          | Inr script_segments \<Rightarrow>
                              (let (generated_images, w') =
                                     generate_images env ps timestamps duration 0
                                       (zip script_segments timestamps) [] w;
                                   metadata_path =
                                     path_join (param_output_dir ps) ''generation_metadata.json''
                               in (Inr (),
                                   w'\<lparr>metadata_files := metadata_files w' @
                                        [(metadata_path,
                                          \<lparr>meta_images = generated_images,
                                            meta_script_path = param_script_path ps,
                                            meta_voice_path = param_voice_path ps,
                                            meta_total_duration = duration,
                                            meta_character_description = param_character_desc ps,
                                            meta_style = param_style ps,
                                            meta_api = ''OpenAI DALL-E 3''\<rparr>)]\<rparr>)))))))"

text \<open>
  A run for the examples: a script of ten words, a voice file of 160000 bytes
  without any decoder (ten seconds at 128 kbit/s), five images, and an image
  service that refuses every prompt that starts as the prompts of scene 3 of
  this run do, and serves all others.
\<close>

definition scene3_refused :: image_env where
  "scene3_refused =
     \<lparr>images_generate =
        (\<lambda>k prompt.
           if prefix (''Create a watercolor style image. '' @ nl @ nl @
                      ''Main character: a fox'' @ nl @ nl @ ''Scene 3 context'') prompt
           then Inl ''Error code: 400 - content_policy_violation''
           else Inr (''https://img/1'', ''revised'')),
      download_image = saves_image\<rparr>"

definition run5 :: run_env where
  "run5 = \<lparr>api_key = Some ''sk-test'',
            read_text = (\<lambda>p. Inr ''one two three four five six seven eight nine ten''),
            audio = \<lparr>path_exists = (\<lambda>p. True), wave_open = (\<lambda>p. None),
                      ffmpeg_available = False, from_file = (\<lambda>p. None),
                      getsize = (\<lambda>p. Some 160000)\<rparr>,
            image = scene3_refused,
            is_cancelled = (\<lambda>i. False)\<rparr>"

definition params5 :: params where
  "params5 = \<lparr>param_script_path = ''script.txt'', param_voice_path = ''voice.mp3'',
               param_image_count = 5, param_style = ''Watercolor'',
               param_character_desc = ''a fox'', param_output_dir = ''out''\<rparr>"

section \<open>ClipAssembler: \<open>VideoProcessor.create_full_video\<close>\<close>

subsection \<open>The clips of the media library\<close>

text \<open>
  A clip of the media library is what the source uses of it: its duration in
  seconds, the frame it shows at a time (the picture of an image file, or the
  black background), and the audio file attached to it. The operations are
  those of the library, by their documented behaviour:
  \<^item> \<open>ImageClip\<close> shows one picture for the given duration;
  \<^item> \<open>concatenate_videoclips\<close> plays the clips one after the other, clip \<open>i\<close>
    from the end of clip \<open>i - 1\<close> on, for the sum of the durations, with the
    audio of the first clip that has one; on an empty list it raises (the
    library takes the maximum of the clip sizes);
  \<^item> \<open>subclip\<close> sets the duration to \<open>t_end - t_start\<close> and shifts the time;
  \<^item> \<open>to_ImageClip\<close> is the still picture of the frame at time \<open>t\<close>, with no
    duration yet (0 here) and no audio; \<open>set_duration\<close> gives it one.
\<close>

datatype frame = Picture string | Black

record clip =
  clip_duration :: real
  make_frame :: "real \<Rightarrow> frame"
  clip_audio :: "string option"

definition ImageClip :: "string \<Rightarrow> real \<Rightarrow> clip" where
  "ImageClip image_path d =
     \<lparr>clip_duration = d, make_frame = (\<lambda>t. Picture image_path), clip_audio = None\<rparr>"

fun frame_at :: "clip list \<Rightarrow> real \<Rightarrow> frame" where
  "frame_at [] t = Black"
| "frame_at (c # cs) t =
     (if t < 0 then Black
      else if t < clip_duration c then make_frame c t
      else frame_at cs (t - clip_duration c))"

fun first_audio :: "clip list \<Rightarrow> string option" where
  "first_audio [] = None"
| "first_audio (c # cs) = (case clip_audio c of Some a \<Rightarrow> Some a | None \<Rightarrow> first_audio cs)"

definition concatenate_videoclips :: "clip list \<Rightarrow> error + clip" where
  "concatenate_videoclips clips =
     (if clips = [] then Inl (CollaboratorError ''max() arg is an empty sequence'')
      else Inr \<lparr>clip_duration = sum_list (map clip_duration clips),
                make_frame = frame_at clips,
                clip_audio = first_audio clips\<rparr>)"

definition set_audio :: "clip \<Rightarrow> string \<Rightarrow> clip" where
  "set_audio v a = v\<lparr>clip_audio := Some a\<rparr>"

definition subclip :: "clip \<Rightarrow> real \<Rightarrow> real \<Rightarrow> clip" where
  "subclip v t_start t_end =
     v\<lparr>clip_duration := t_end - t_start, make_frame := (\<lambda>t. make_frame v (t + t_start))\<rparr>"

definition to_ImageClip :: "clip \<Rightarrow> real \<Rightarrow> clip" where
  "to_ImageClip v t =
     \<lparr>clip_duration = 0, make_frame = (\<lambda>u. make_frame v t), clip_audio = None\<rparr>"

definition set_duration :: "clip \<Rightarrow> real \<Rightarrow> clip" where
  "set_duration c d = c\<lparr>clip_duration := d\<rparr>"

subsection \<open>\<open>create_full_video\<close>\<close>

text \<open>
  The surroundings: \<open>AudioFileClip\<close> gives the duration of the audio file, or
  the exception of opening it; \<open>imread\<close> tells whether \<open>ImageClip\<close> can read
  the image file; \<open>ensure_writable_path\<close> is the path the export writes to;
  \<open>write_videofile\<close> is the exception of the encoder, if any. The second
  component of the result lists the calls that read or write a media file,
  and so reach the decoder or the encoder, in the order they are made.
\<close>

record media_env =
  AudioFileClip :: "string \<Rightarrow> error + real"
  imread :: "string \<Rightarrow> bool"
  ensure_writable_path :: "string \<Rightarrow> string"
  write_videofile :: "string \<Rightarrow> error option"

datatype media_call =
    Call_AudioFileClip string
  | Call_ImageClip string
  | Call_write_videofile string

text \<open>The loop that makes one clip for each image.\<close>

fun image_clips :: "media_env \<Rightarrow> generated_image list \<Rightarrow> (error + clip list) \<times> media_call list" where
  "image_clips env [] = (Inr [], [])"
| "image_clips env (data # rest) =
     (if imread env (img_path data) then
        (case image_clips env rest of
           (Inl e, calls) \<Rightarrow> (Inl e, Call_ImageClip (img_path data) # calls)
         | (Inr clips, calls) \<Rightarrow>
             (Inr (ImageClip (img_path data) (img_duration data) # clips),
              Call_ImageClip (img_path data) # calls))
      else (Inl (CollaboratorError (''cannot read image: '' @ img_path data)),
            [Call_ImageClip (img_path data)]))"

text \<open>
  The steps after the audio is loaded and the clips are made: concatenate,
  set the audio, match the duration of the audio.
\<close>

definition match_audio_duration :: "clip \<Rightarrow> real \<Rightarrow> error + clip" where
  "match_audio_duration final_video total_duration =
     (if clip_duration final_video > total_duration then
        Inr (subclip final_video 0 total_duration)
      else if clip_duration final_video < total_duration then
        (let last_frame = to_ImageClip final_video (clip_duration final_video - 0.1);
             extension = set_duration last_frame (total_duration - clip_duration final_video)
         in concatenate_videoclips [final_video, extension])
      else Inr final_video)"

definition create_full_video ::
  "media_env \<Rightarrow> generated_image list \<Rightarrow> string \<Rightarrow> string \<Rightarrow> (error + clip) \<times> media_call list" where
  "create_full_video env image_data audio_path output_path =
     (case AudioFileClip env audio_path of
        Inl e \<Rightarrow> (Inl e, [Call_AudioFileClip audio_path])
      | Inr total_duration \<Rightarrow>
          (case image_clips env image_data of
             (Inl e, calls) \<Rightarrow> (Inl e, Call_AudioFileClip audio_path # calls)
           | (Inr clips, calls) \<Rightarrow>
               (case concatenate_videoclips clips of
                  Inl e \<Rightarrow> (Inl e, Call_AudioFileClip audio_path # calls)
                | Inr concatenated \<Rightarrow>
                    (case match_audio_duration (set_audio concatenated audio_path) total_duration of
                       Inl e \<Rightarrow> (Inl e, Call_AudioFileClip audio_path # calls)
                     | Inr final_video \<Rightarrow>
                         (let written = ensure_writable_path env output_path;
                              calls' = Call_AudioFileClip audio_path # calls @
                                         [Call_write_videofile written]
                          in case write_videofile env written of
                               Some e \<Rightarrow> (Inl e, calls')
                             | None \<Rightarrow> (Inr final_video, calls'))))))"

text \<open>
  A media environment for the examples: the audio file lasts ten seconds,
  every image can be read and the encoder works.
\<close>

definition studio :: media_env where
  "studio = \<lparr>AudioFileClip = (\<lambda>p. Inr 10), imread = (\<lambda>p. True),
              ensure_writable_path = (\<lambda>p. p), write_videofile = (\<lambda>p. None)\<rparr>"

definition three_images :: "real \<Rightarrow> generated_image list" where
  "three_images d =
     [\<lparr>img_path = ''a.png'', img_timestamp = 0, img_duration = d\<rparr>,
      \<lparr>img_path = ''b.png'', img_timestamp = d, img_duration = d\<rparr>,
      \<lparr>img_path = ''c.png'', img_timestamp = 2 * d, img_duration = d\<rparr>]"

text \<open>
  Two lists of images whose last image is shorter than a tenth of a second:
  five seconds of \<open>a.png\<close> followed by a twentieth of a second of \<open>b.png\<close>,
  and a sixteenth of a second of \<open>a.png\<close> alone.
\<close>

definition short_last_image :: "generated_image list" where
  "short_last_image =
     [\<lparr>img_path = ''a.png'', img_timestamp = 0, img_duration = 5\<rparr>,
      \<lparr>img_path = ''b.png'', img_timestamp = 5, img_duration = 1 / 20\<rparr>]"

definition brief_image :: "generated_image list" where
  "brief_image = [\<lparr>img_path = ''a.png'', img_timestamp = 0, img_duration = 1 / 16\<rparr>]"

section \<open>Properties\<close>

subsection \<open>Splitting and joining words\<close>


lemma str_split_unfold_Nil: "dropWhile isspace s = [] \<Longrightarrow> str_split s = []"
  by (subst str_split.simps) (simp only: list.case)

lemma str_split_unfold_Cons:
  "dropWhile isspace s = c # cs \<Longrightarrow>
   str_split s =
     takeWhile (\<lambda>x. \<not> isspace x) (c # cs) # str_split (dropWhile (\<lambda>x. \<not> isspace x) (c # cs))"
  by (subst str_split.simps) (simp only: list.case)

lemma str_split_words:
  "w \<in> set (str_split s) \<Longrightarrow> w \<noteq> [] \<and> (\<forall>c\<in>set w. \<not> isspace c)"
proof (induction s rule: str_split.induct)
  case (1 s)
  show ?case
  proof (cases "dropWhile isspace s")
    case Nil
    with "1.prems" show ?thesis by (simp only: str_split_unfold_Nil list.set empty_iff)
  next
    case (Cons c cs)
    have nc: "\<not> isspace c"
      using Cons hd_dropWhile [of isspace s] by auto
    let ?w = "takeWhile (\<lambda>x. \<not> isspace x) (c # cs)"
    let ?r = "dropWhile (\<lambda>x. \<not> isspace x) (c # cs)"
    from "1.prems" have "w \<in> set (?w # str_split ?r)"
      by (simp only: str_split_unfold_Cons [OF Cons])
    then have "w = ?w \<or> w \<in> set (str_split ?r)"
      by (simp only: set_ConsD list.set insert_iff)
    then show ?thesis
    proof
      assume w: "w = ?w"
      have "w \<noteq> []" unfolding w using nc by simp
      moreover have "\<forall>x\<in>set w. \<not> isspace x"
        unfolding w by (auto dest: set_takeWhileD)
      ultimately show ?thesis by simp
    next
      assume "w \<in> set (str_split ?r)"
      then show ?thesis by (rule "1.IH" [OF Cons])
    qed
  qed
qed


lemma isspace_space: "isspace CHR '' ''"
  by (simp add: isspace_def)

lemma str_split_space: "isspace c \<Longrightarrow> str_split (c # s) = str_split s"
proof (cases "dropWhile isspace s")
  case Nil
  assume c: "isspace c"
  then have "dropWhile isspace (c # s) = []" using Nil by simp
  then show ?thesis by (simp only: str_split_unfold_Nil [OF Nil] str_split_unfold_Nil)
next
  case (Cons d ds)
  assume c: "isspace c"
  then have "dropWhile isspace (c # s) = d # ds" using Cons by simp
  then show ?thesis by (simp only: str_split_unfold_Cons [OF Cons] str_split_unfold_Cons)
qed

lemma str_split_word:
  assumes "w \<noteq> []" "\<forall>c\<in>set w. \<not> isspace c"
  shows "str_split w = [w]"
proof -
  obtain c cs where w: "w = c # cs" using assms(1) by (cases w) auto
  have nc: "\<not> isspace c" using assms(2) w by simp
  have d: "dropWhile isspace w = c # cs" using nc w by simp
  have t: "takeWhile (\<lambda>x. \<not> isspace x) (c # cs) = w"
    using assms(2) unfolding w by (simp only: takeWhile_eq_all_conv) 
  have e: "dropWhile (\<lambda>x. \<not> isspace x) (c # cs) = []"
    using assms(2) unfolding w by (simp only: dropWhile_eq_Nil_conv)
  have n: "str_split [] = []" by (rule str_split_unfold_Nil) simp
  show ?thesis
    by (simp only: str_split_unfold_Cons [OF d] t e n)
qed

lemma str_split_word_space:
  assumes "w \<noteq> []" "\<forall>c\<in>set w. \<not> isspace c"
  shows "str_split (w @ CHR '' '' # s) = w # str_split s"
proof -
  obtain c cs where w: "w = c # cs" using assms(1) by (cases w) auto
  have nc: "\<not> isspace c" using assms(2) w by simp
  have d: "dropWhile isspace (w @ CHR '' '' # s) = c # (cs @ CHR '' '' # s)" using nc w by simp
  have t: "takeWhile (\<lambda>x. \<not> isspace x) (c # (cs @ CHR '' '' # s)) = w"
    using assms(2) takeWhile_append2 [of w "\<lambda>x. \<not> isspace x" "CHR '' '' # s"]
    unfolding w by (simp add: isspace_space)
  have e: "dropWhile (\<lambda>x. \<not> isspace x) (c # (cs @ CHR '' '' # s)) = CHR '' '' # s"
    using assms(2) dropWhile_append2 [of w "\<lambda>x. \<not> isspace x" "CHR '' '' # s"]
    unfolding w by (simp add: isspace_space)
  have "str_split (w @ CHR '' '' # s) = w # str_split (CHR '' '' # s)"
    by (simp only: str_split_unfold_Cons [OF d] t e)
  then show ?thesis by (simp only: str_split_space [OF isspace_space])
qed

lemma str_split_join:
  "\<forall>w\<in>set ws. w \<noteq> [] \<and> (\<forall>c\<in>set w. \<not> isspace c) \<Longrightarrow> str_split (join '' '' ws) = ws"
proof (induction ws rule: induct_list012)
  case 1
  show ?case by (simp add: str_split_unfold_Nil)
next
  case (2 x)
  then show ?case by (simp add: str_split_word)
next
  case (3 x y ys)
  have "str_split (join '' '' (x # y # ys)) = str_split (x @ CHR '' '' # join '' '' (y # ys))"
    by simp
  also have "\<dots> = x # str_split (join '' '' (y # ys))"
    using 3(3) by (intro str_split_word_space) auto
  also have "\<dots> = x # y # ys" using 3 by simp
  finally show ?case .
qed


subsection \<open>Script segments\<close>

lemma str_split_clean_join:
  "set ws \<subseteq> set (str_split script) \<Longrightarrow> str_split (join '' '' ws) = ws"
  by (rule str_split_join) (use str_split_words in blast)

lemma concat_chunks:
  "concat (map (\<lambda>i. take q (drop (i * q) ws)) [0..<m]) = take (m * q) ws"
proof (induction m)
  case 0
  show ?case by simp
next
  case (Suc m)
  have "take (m * q) ws @ take q (drop (m * q) ws) = take (m * q + q) ws"
    by (simp add: take_add)
  with Suc show ?case by (simp add: add.commute)
qed

lemma split_script_segments:
  assumes "0 < n"
  shows "split_script script n =
     Inr (map (\<lambda>i. join '' '' (take (length (str_split script) div nat n)
                                  (drop (i * (length (str_split script) div nat n)) (str_split script))))
            [0..<nat n - 1]
          @ [join '' '' (drop ((nat n - 1) * (length (str_split script) div nat n)) (str_split script))])"
proof -
  obtain m where m: "nat n = Suc m" using assms by (cases "nat n") auto
  show ?thesis
    using assms unfolding split_script_def Let_def m by simp
qed

text \<open>
  Claim C4. For a segment count \<open>n\<close> between 1 and the number of words of the
  script, \<open>_split_script\<close> returns exactly \<open>n\<close> segments; read back as words,
  every segment but the last is the next \<open>len(words) // n\<close> words of the
  script, the last one is all the remaining words, the segments in order give
  back the word sequence, and their word counts add up to the word count of
  the script.
\<close>

theorem split_script_chunks:
  assumes "1 \<le> n" and "n \<le> int (length (str_split script))"
  shows "\<exists>segs. split_script script n = Inr segs \<and> length segs = nat n \<and>
           (\<forall>i < nat n - 1.
              str_split (segs ! i) =
                take (length (str_split script) div nat n)
                  (drop (i * (length (str_split script) div nat n)) (str_split script)) \<and>
              length (str_split (segs ! i)) = length (str_split script) div nat n) \<and>
           str_split (segs ! (nat n - 1)) =
             drop ((nat n - 1) * (length (str_split script) div nat n)) (str_split script) \<and>
           concat (map str_split segs) = str_split script \<and>
           (\<Sum>s\<leftarrow>segs. length (str_split s)) = length (str_split script)"
proof -
  define ws where "ws = str_split script"
  define q where "q = length ws div nat n"
  define m where "m = nat n - 1"
  define segs where
    "segs = map (\<lambda>i. join '' '' (take q (drop (i * q) ws))) [0..<m] @ [join '' '' (drop (m * q) ws)]"
  have n: "nat n = Suc m" using assms(1) by (simp add: m_def)
  have eq: "split_script script n = Inr segs"
    using split_script_segments [of n script] assms(1)
    by (simp add: segs_def ws_def q_def m_def)
  have len: "length segs = nat n" by (simp add: segs_def n)
  have clean: "\<And>xs. set xs \<subseteq> set ws \<Longrightarrow> str_split (join '' '' xs) = xs"
    unfolding ws_def by (rule str_split_clean_join)
  have chunk: "str_split (join '' '' (take q (drop (i * q) ws))) = take q (drop (i * q) ws)" for i
    by (rule clean) (meson set_take_subset set_drop_subset subset_trans)
  have rest: "str_split (join '' '' (drop (m * q) ws)) = drop (m * q) ws"
    by (rule clean) (rule set_drop_subset)
  have nth: "segs ! i = join '' '' (take q (drop (i * q) ws))" if "i < m" for i
    using that by (simp add: segs_def nth_append)
  have last: "segs ! m = join '' '' (drop (m * q) ws)"
    by (simp add: segs_def nth_append)
  have "Suc m * q \<le> length ws"
    unfolding q_def n [symmetric] by (simp add: mult.commute)
  then have full: "(i + 1) * q \<le> length ws" if "i < m" for i
  proof -
    have "(i + 1) * q \<le> Suc m * q" using that by (intro mult_le_mono1) simp
    with \<open>Suc m * q \<le> length ws\<close> show ?thesis by linarith
  qed
  have lenchunk: "length (take q (drop (i * q) ws)) = q" if "i < m" for i
    using full [OF that] by simp
  have maps: "map str_split segs = map (\<lambda>i. take q (drop (i * q) ws)) [0..<m] @ [drop (m * q) ws]"
    by (simp add: segs_def chunk rest)
  have conc: "concat (map str_split segs) = ws"
    by (simp add: maps concat_chunks)
  have "(\<Sum>s\<leftarrow>segs. length (str_split s)) = length (concat (map str_split segs))"
    by (simp add: length_concat comp_def)
  then have total: "(\<Sum>s\<leftarrow>segs. length (str_split s)) = length ws"
    by (simp add: conc)
  have A: "\<forall>i < nat n - 1. str_split (segs ! i) = take q (drop (i * q) ws) \<and>
              length (str_split (segs ! i)) = q"
    unfolding m_def [symmetric] using nth chunk lenchunk by simp
  have B: "str_split (segs ! (nat n - 1)) = drop ((nat n - 1) * q) ws"
    unfolding m_def [symmetric] by (simp only: last rest)
  show ?thesis
    unfolding ws_def [symmetric] q_def [symmetric]
    using eq len A B conc total by blast
qed


theorem split_script_chunks_witness:
  "1 \<le> (3::int) \<and> 3 \<le> int (length (str_split ''a b c d e f g'')) \<and>
   (\<exists>segs. split_script ''a b c d e f g'' 3 = Inr segs \<and> length segs = 3 \<and>
      str_split (segs ! 0) = [''a'', ''b''] \<and> str_split (segs ! 2) = [''e'', ''f'', ''g''] \<and>
      (\<Sum>s\<leftarrow>segs. length (str_split s)) = 7)"
proof -
  have w: "str_split ''a b c d e f g'' = [''a'', ''b'', ''c'', ''d'', ''e'', ''f'', ''g'']"
    by code_simp
  have h: "3 \<le> int (length (str_split ''a b c d e f g''))"
    by (simp add: w)
  from split_script_chunks [of 3 "''a b c d e f g''", OF _ h]
  obtain segs where s: "split_script ''a b c d e f g'' 3 = Inr segs" "length segs = nat 3"
    "\<forall>i < nat 3 - 1.
        str_split (segs ! i) =
          take (length (str_split ''a b c d e f g'') div nat 3)
            (drop (i * (length (str_split ''a b c d e f g'') div nat 3)) (str_split ''a b c d e f g''))"
    "str_split (segs ! (nat 3 - 1)) =
       drop ((nat 3 - 1) * (length (str_split ''a b c d e f g'') div nat 3)) (str_split ''a b c d e f g'')"
    "(\<Sum>s\<leftarrow>segs. length (str_split s)) = length (str_split ''a b c d e f g'')"
    by auto
  have "str_split (segs ! 0) = [''a'', ''b'']" using s(3) by (simp add: w)
  moreover have "str_split (segs ! 2) = [''e'', ''f'', ''g'']" using s(4) by (simp add: w)
  ultimately show ?thesis using s(1,2,5) h by (simp add: w)
qed

text \<open>
  Claim C10. For a segment count \<open>n \<ge> 1\<close> larger than the number of words,
  \<open>_split_script\<close> raises nothing and returns exactly \<open>n\<close> segments:
  \<open>words_per_segment\<close> is zero, every segment before the last is the empty
  string, the last one is the whole word sequence joined by spaces, the word
  count is preserved, and some returned segment is empty.
\<close>

theorem split_script_surplus_segments:
  assumes "1 \<le> n" and "int (length (str_split script)) < n"
  shows "\<exists>segs. split_script script n = Inr segs \<and> length segs = nat n \<and>
           (\<forall>i < nat n - 1. segs ! i = []) \<and>
           segs ! (nat n - 1) = join '' '' (str_split script) \<and>
           str_split (segs ! (nat n - 1)) = str_split script \<and>
           (\<Sum>s\<leftarrow>segs. length (str_split s)) = length (str_split script) \<and>
           (\<exists>s \<in> set segs. s = [])"
proof -
  define ws where "ws = str_split script"
  define m where "m = nat n - 1"
  define segs where "segs = replicate m [] @ [join '' '' ws]"
  have n: "nat n = Suc m" using assms(1) by (simp add: m_def)
  have q: "length ws div nat n = 0" using assms by (simp add: ws_def)
  have "map (\<lambda>i. join '' '' (take 0 (drop (i * 0) ws))) [0..<m] = replicate m []"
    by (simp add: map_replicate_const)
  moreover have "nat n - Suc 0 = m" by (simp add: m_def)
  ultimately have eq: "split_script script n = Inr segs"
    using split_script_segments [of n script] assms(1)
    by (simp add: segs_def ws_def [symmetric] q)
  have len: "length segs = nat n" by (simp add: segs_def n)
  have A: "\<forall>i < nat n - 1. segs ! i = []"
    unfolding m_def [symmetric] by (simp add: segs_def nth_append)
  have B: "segs ! (nat n - 1) = join '' '' ws"
    unfolding m_def [symmetric] by (simp add: segs_def nth_append)
  have C: "str_split (join '' '' ws) = ws"
    unfolding ws_def by (rule str_split_clean_join [of _ script]) simp
  have e: "str_split [] = []" by (rule str_split_unfold_Nil) simp
  have D: "(\<Sum>s\<leftarrow>segs. length (str_split s)) = length ws"
    by (simp add: segs_def C e)
  have E: "\<exists>s \<in> set segs. s = []"
  proof (cases m)
    case 0
    then have "n = 1" using n assms(1) by linarith
    then have "length ws = 0" using assms(2) by (simp add: ws_def)
    then have "ws = []" by simp
    then show ?thesis by (simp add: segs_def)
  next
    case (Suc k)
    then show ?thesis by (simp add: segs_def)
  qed
  show ?thesis
    unfolding ws_def [symmetric] using eq len A B C D E by (intro exI [of _ segs]) simp
qed

theorem split_script_surplus_segments_witness:
  "1 \<le> (4::int) \<and> int (length (str_split ''a b'')) < 4 \<and>
   split_script ''a b'' 4 = Inr ['''', '''', '''', ''a b'']"
proof -
  have w: "str_split ''a b'' = [''a'', ''b'']" by code_simp
  have h: "int (length (str_split ''a b'')) < 4" by (simp add: w)
  from split_script_surplus_segments [of 4 "''a b''", OF _ h]
  obtain segs where s: "split_script ''a b'' 4 = Inr segs" "length segs = nat 4"
    "\<forall>i < nat 4 - 1. segs ! i = []" "segs ! (nat 4 - 1) = join '' '' (str_split ''a b'')"
    by auto
  from s(2) obtain a b c d where l: "segs = [a, b, c, d]"
    by (auto simp: numeral_eq_Suc length_Suc_conv)
  have "segs ! 0 = []" "segs ! 1 = []" "segs ! 2 = []" using s(3) by simp_all
  then have "a = []" "b = []" "c = []" by (simp_all add: l)
  moreover have "d = ''a b''" using s(4) by (simp add: l w)
  ultimately show ?thesis using s(1) h l by simp
qed

text \<open>
  Claim C7, as amended. \<open>_split_script\<close> has no check for an empty script. On
  a script without words it raises \<open>ZeroDivisionError\<close> for the segment count
  0 and otherwise returns one empty segment per requested segment (none for
  a negative count).
\<close>

theorem split_script_empty_script:
  assumes "str_split script = []"
  shows "split_script script n =
           (if n = 0 then Inl ZeroDivisionError else Inr (replicate (nat n) []))"
proof (cases "n = 0")
  case True
  then show ?thesis by (simp add: split_script_def)
next
  case False
  show ?thesis
    using False assms by (simp add: split_script_def map_replicate_const cong: if_cong)
qed

theorem split_script_empty_script_witness:
  "str_split ''  '' = [] \<and> split_script ''  '' 2 = Inr ['''', ''''] \<and>
   split_script ''  '' 0 = Inl ZeroDivisionError \<and> split_script ''  '' (- 1) = Inr []"
proof -
  have e: "str_split ''  '' = []" by code_simp
  show ?thesis
    using split_script_empty_script [OF e, of 2] split_script_empty_script [OF e, of 0]
      split_script_empty_script [OF e, of "- 1"] e
    by (simp add: numeral_eq_Suc)
qed

text \<open>
  Claim C7 as stated fails: the empty script with three segments is not
  rejected, three empty segments come back.
\<close>

theorem split_script_empty_script_counterexample:
  "str_split '''' = [] \<and> split_script '''' 3 = Inr ['''', '''', '''']"
  by code_simp

subsection \<open>Timestamps\<close>

text \<open>
  Claim C3. For a positive total duration and a positive segment count,
  \<open>generate_timestamps\<close> returns exactly \<open>num_segments\<close> timestamps, in
  non-decreasing (here even strictly increasing) order, the first one 0, the
  \<open>i\<close>-th one \<open>i * (total_duration / num_segments)\<close>, so that consecutive
  timestamps differ by \<open>total_duration / num_segments\<close>. For a segment count
  that is zero or negative it raises the \<open>ValueError\<close> that the specification
  calls InvalidSegmentCount.
\<close>

theorem generate_timestamps_plan:
  "(0 < total_duration \<and> 0 < num_segments \<longrightarrow>
      (\<exists>ts. generate_timestamps total_duration num_segments = Inr ts \<and>
            length ts = nat num_segments \<and> sorted ts \<and> sorted_wrt (<) ts \<and> ts ! 0 = 0 \<and>
            (\<forall>i < nat num_segments.
               ts ! i = real i * (total_duration / real_of_int num_segments)) \<and>
            (\<forall>i. Suc i < nat num_segments \<longrightarrow>
               ts ! Suc i - ts ! i = total_duration / real_of_int num_segments))) \<and>
   (num_segments \<le> 0 \<longrightarrow>
      generate_timestamps total_duration num_segments =
        Inl (ValueError ''Number of segments must be positive''))"
proof (intro conjI impI)
  assume a: "0 < total_duration \<and> 0 < num_segments"
  define d where "d = total_duration / real_of_int num_segments"
  define ts where "ts = map (\<lambda>i. real i * d) [0..<nat num_segments]"
  have d: "0 < d" using a by (simp add: d_def)
  have eq: "generate_timestamps total_duration num_segments = Inr ts"
    using a by (simp add: generate_timestamps_def ts_def d_def)
  have len: "length ts = nat num_segments" by (simp add: ts_def)
  have nth: "ts ! i = real i * d" if "i < nat num_segments" for i
    using that by (simp add: ts_def)
  have strict: "sorted_wrt (<) ts"
    unfolding sorted_wrt_iff_nth_less using d by (simp add: len nth)
  then have sorted: "sorted ts"
    by (rule sorted_wrt_mono_rel [rotated]) simp
  have first: "ts ! 0 = 0" using a nth [of 0] by simp
  have diff: "ts ! Suc i - ts ! i = d" if "Suc i < nat num_segments" for i
    using that by (simp add: nth algebra_simps)
  show "\<exists>ts. generate_timestamps total_duration num_segments = Inr ts \<and>
            length ts = nat num_segments \<and> sorted ts \<and> sorted_wrt (<) ts \<and> ts ! 0 = 0 \<and>
            (\<forall>i < nat num_segments.
               ts ! i = real i * (total_duration / real_of_int num_segments)) \<and>
            (\<forall>i. Suc i < nat num_segments \<longrightarrow>
               ts ! Suc i - ts ! i = total_duration / real_of_int num_segments)"
    unfolding d_def [symmetric] using eq len sorted strict first nth diff by blast
next
  assume "num_segments \<le> 0"
  then show "generate_timestamps total_duration num_segments =
        Inl (ValueError ''Number of segments must be positive'')"
    by (simp add: generate_timestamps_def)
qed

theorem generate_timestamps_plan_witness:
  "(0 < (10::real) \<and> 0 < (4::int)) \<and>
   (\<exists>ts. generate_timestamps 10 4 = Inr ts \<and> length ts = 4 \<and> sorted ts \<and> ts ! 0 = 0 \<and>
      ts ! 3 = 7.5) \<and>
   (0::int) \<le> 0 \<and>
   generate_timestamps 10 0 = Inl (ValueError ''Number of segments must be positive'')"
proof -
  from generate_timestamps_plan [of 10 4]
  obtain ts where t: "generate_timestamps 10 4 = Inr ts" "length ts = nat 4" "sorted ts"
    "ts ! 0 = 0" "\<forall>i < nat 4. ts ! i = real i * (10 / real_of_int 4)"
    by auto
  have t3: "ts ! 3 = 7.5" using t(5) by simp
  have "\<exists>ts. generate_timestamps 10 4 = Inr ts \<and> length ts = 4 \<and> sorted ts \<and> ts ! 0 = 0 \<and>
      ts ! 3 = 7.5"
    using t(1-4) t3 by auto
  moreover have "generate_timestamps 10 0 = Inl (ValueError ''Number of segments must be positive'')"
    using generate_timestamps_plan [of 10 0] by simp
  ultimately show ?thesis by simp
qed

subsection \<open>B-roll playlist\<close>

lemma mset_swap': "i < length x \<Longrightarrow> j < length x \<Longrightarrow> mset (swap i j x) = mset x"
  unfolding swap_def by (simp add: mset_swap)

lemma length_swap: "length (swap i j x) = length x"
  by (simp add: swap_def)

lemma fold_swap:
  "\<forall>i \<in> set is. i < length x \<Longrightarrow>
   length (fold (\<lambda>i x. swap i (rand i mod Suc i) x) is x) = length x \<and>
   mset (fold (\<lambda>i x. swap i (rand i mod Suc i) x) is x) = mset x"
proof (induction "is" arbitrary: x)
  case Nil
  show ?case by simp
next
  case (Cons i "is")
  have i: "i < length x" using Cons.prems by simp
  have j: "rand i mod Suc i < length x"
    using i by (meson le_less_trans mod_less_divisor less_Suc_eq_le zero_less_Suc)
  have "\<forall>k \<in> set is. k < length (swap i (rand i mod Suc i) x)"
    using Cons.prems by (simp add: length_swap)
  from Cons.IH [OF this] show ?case
    by (simp add: length_swap mset_swap' [OF i j])
qed

lemma mset_shuffle: "mset (shuffle rand x) = mset x"
  unfolding shuffle_def using fold_swap [of "rev [1..<length x]" x rand] by simp

lemma length_shuffle: "length (shuffle rand x) = length x"
  unfolding shuffle_def using fold_swap [of "rev [1..<length x]" x rand] by simp

lemma foldl_snoc: "foldl (\<lambda>clips path. clips @ [path]) acc xs = acc @ xs"
  by (induction xs arbitrary: acc) simp_all

text \<open>
  Claim C9. Whatever the random draws, the playlist that \<open>process_broll\<close>
  passes to the concatenation starts with the intro clips, element for
  element in their input order, and the rest of it is a permutation of the
  B-roll clips: the same multiset.
\<close>

theorem all_clips_intro_then_permuted_broll:
  "take (length intro_paths) (all_clips rand intro_paths broll_paths) = intro_paths \<and>
   mset (drop (length intro_paths) (all_clips rand intro_paths broll_paths)) = mset broll_paths \<and>
   length (all_clips rand intro_paths broll_paths) = length intro_paths + length broll_paths"
  by (simp add: all_clips_def foldl_snoc mset_shuffle length_shuffle)

subsection \<open>Duration of an audio file\<close>

lemma endswith_mp3_not_m4a: "endswith s ''.mp3'' \<Longrightarrow> \<not> endswith s ''.m4a''"
  by (auto simp: endswith_def suffix_def)

lemma fst_estimate_from_size:
  "fst (estimate_from_size env p) =
     (case getsize env p of
        None \<Rightarrow> Inl (RuntimeError
             ''Cannot determine audio duration - FFmpeg is required for accurate audio processing'')
      | Some n \<Rightarrow> Inr (real (n * 8) / (if endswith (lower p) ''.m4a'' then 256000 else 128000)))"
  by (auto simp: estimate_from_size_def Let_def endswith_mp3_not_m4a split: option.splits)

lemma snd_estimate_from_size:
  "getsize env p = Some n \<Longrightarrow>
   snd (estimate_from_size env p) =
     [Warning_using_estimated_duration
        (real (n * 8) / (if endswith (lower p) ''.m4a'' then 256000 else 128000))]"
  by (auto simp: estimate_from_size_def Let_def endswith_mp3_not_m4a)

lemma get_duration_not_found:
  "\<not> path_exists env p \<Longrightarrow>
   get_duration env p =
     (Inl (FileNotFoundError (''Audio file not found: '' @ p)), [Info_getting_duration p])"
  by (simp add: get_duration_def)

lemma fst_duration_from_pydub_cases:
  "fst (duration_from_pydub env p) = fst (estimate_from_size env p) \<or>
   \<not> isl (fst (duration_from_pydub env p))"
  by (auto simp: duration_from_pydub_def split: option.splits prod.splits)

lemma fst_get_duration_cases:
  "path_exists env p \<Longrightarrow>
   fst (get_duration env p) = fst (estimate_from_size env p) \<or>
   \<not> isl (fst (get_duration env p))"
  using fst_duration_from_pydub_cases [of env p]
  by (auto simp: get_duration_def split: option.splits prod.splits)

lemma get_duration_falls_back:
  assumes "path_exists env p"
    and "endswith (lower p) ''.wav'' \<longrightarrow>
           (case wave_open env p of None \<Rightarrow> True | Some (frames, rate) \<Rightarrow> rate = 0)"
    and "ffmpeg_available env \<longrightarrow> from_file env p = None"
  shows "fst (get_duration env p) = fst (estimate_from_size env p)"
    and "set (snd (estimate_from_size env p)) \<subseteq> set (snd (get_duration env p))"
  using assms
  by (auto simp: get_duration_def duration_from_pydub_def split: option.splits prod.splits)

text \<open>
  Claim C6, as amended. \<open>get_duration\<close> raises \<open>FileNotFoundError\<close> exactly
  when the path does not exist, and then before any method is tried: nothing
  but the opening line is logged. For an existing file on which the WAV header
  gives nothing (not a \<open>.wav\<close> name, or parsing fails) and the decoder gives
  nothing (no FFmpeg, or pydub fails), it returns
  \<open>file_size * 8 / bitrate\<close> with 256000 bit/s for \<open>.m4a\<close> and 128000 bit/s
  otherwise, and logs a warning with that estimate in place of raising. The
  estimate is never negative, and it is positive exactly when the file is not
  empty. \<open>RuntimeError\<close> is raised only for an existing file whose size cannot
  be read, and in this branch always then.
\<close>

theorem get_duration_size_estimate:
  "((\<exists>msg. fst (get_duration env p) = Inl (FileNotFoundError msg)) \<longleftrightarrow> \<not> path_exists env p) \<and>
   (path_exists env p \<and>
    (endswith (lower p) ''.wav'' \<longrightarrow>
       (case wave_open env p of None \<Rightarrow> True | Some (frames, rate) \<Rightarrow> rate = 0)) \<and>
    (ffmpeg_available env \<longrightarrow> from_file env p = None) \<longrightarrow>
      (case getsize env p of
         Some file_size \<Rightarrow>
           (let estimate =
                  real (file_size * 8) / (if endswith (lower p) ''.m4a'' then 256000 else 128000)
            in fst (get_duration env p) = Inr estimate \<and>
               Warning_using_estimated_duration estimate \<in> set (snd (get_duration env p)) \<and>
               0 \<le> estimate \<and> (0 < estimate \<longleftrightarrow> 0 < file_size))
       | None \<Rightarrow> (\<exists>msg. fst (get_duration env p) = Inl (RuntimeError msg)))) \<and>
   ((\<exists>msg. fst (get_duration env p) = Inl (RuntimeError msg)) \<longrightarrow>
      path_exists env p \<and> getsize env p = None) \<and>
   (\<not> path_exists env p \<longrightarrow> snd (get_duration env p) = [Info_getting_duration p])"
proof -
  have not_found:
    "(\<exists>msg. fst (get_duration env p) = Inl (FileNotFoundError msg)) \<longleftrightarrow> \<not> path_exists env p"
  proof
    assume "\<exists>msg. fst (get_duration env p) = Inl (FileNotFoundError msg)"
    then show "\<not> path_exists env p"
      using fst_get_duration_cases [of env p]
      by (auto simp: fst_estimate_from_size split: option.splits)
  next
    assume "\<not> path_exists env p"
    then show "\<exists>msg. fst (get_duration env p) = Inl (FileNotFoundError msg)"
      by (simp add: get_duration_not_found)
  qed
  have fallback: "case getsize env p of
         Some file_size \<Rightarrow>
           (let estimate =
                  real (file_size * 8) / (if endswith (lower p) ''.m4a'' then 256000 else 128000)
            in fst (get_duration env p) = Inr estimate \<and>
               Warning_using_estimated_duration estimate \<in> set (snd (get_duration env p)) \<and>
               0 \<le> estimate \<and> (0 < estimate \<longleftrightarrow> 0 < file_size))
       | None \<Rightarrow> (\<exists>msg. fst (get_duration env p) = Inl (RuntimeError msg))"
    if a: "path_exists env p \<and>
      (endswith (lower p) ''.wav'' \<longrightarrow>
         (case wave_open env p of None \<Rightarrow> True | Some (frames, rate) \<Rightarrow> rate = 0)) \<and>
      (ffmpeg_available env \<longrightarrow> from_file env p = None)"
  proof -
    from a have f: "fst (get_duration env p) = fst (estimate_from_size env p)"
      and s: "set (snd (estimate_from_size env p)) \<subseteq> set (snd (get_duration env p))"
      using get_duration_falls_back [of env p] by blast+
    show ?thesis
    proof (cases "getsize env p")
      case None
      then show ?thesis by (simp add: f fst_estimate_from_size)
    next
      case (Some n)
      then show ?thesis
        using s by (simp add: f fst_estimate_from_size snd_estimate_from_size Let_def)
    qed
  qed
  have unavailable: "path_exists env p \<and> getsize env p = None"
    if "\<exists>msg. fst (get_duration env p) = Inl (RuntimeError msg)"
    using that fst_get_duration_cases [of env p]
    by (cases "path_exists env p")
       (auto simp: fst_estimate_from_size get_duration_not_found split: option.splits)
  have nothing_tried: "snd (get_duration env p) = [Info_getting_duration p]"
    if "\<not> path_exists env p"
    using that by (simp add: get_duration_not_found)
  show ?thesis
    using not_found fallback unavailable nothing_tried by blast
qed

text \<open>
  Claim C6 as stated fails on an empty file: it exists, its size is readable,
  and the estimate is 0, which is not positive.
\<close>

theorem get_duration_size_estimate_counterexample:
  "path_exists env0 ''voice.mp3'' \<and> getsize env0 ''voice.mp3'' = Some 0 \<and>
   get_duration env0 ''voice.mp3'' =
     (Inr 0, [Info_getting_duration ''voice.mp3'', Warning_using_estimated_duration 0]) \<and>
   \<not> (0::real) < 0"
  by (simp add: env0_def get_duration_def duration_from_pydub_def estimate_from_size_def
        endswith_def lower_def lower_char_def suffix_to_prefix)

theorem get_duration_size_estimate_witness:
  "path_exists env1 ''voice.m4a'' \<and> ffmpeg_available env1 = False \<and>
   getsize env1 ''voice.m4a'' = Some 32000 \<and>
   fst (get_duration env1 ''voice.m4a'') = Inr 1 \<and>
   getsize env1 ''voice.mp3'' = None \<and>
   (\<exists>msg. fst (get_duration env1 ''voice.mp3'') = Inl (RuntimeError msg)) \<and>
   \<not> path_exists env1 ''missing.mp3'' \<and>
   (\<exists>msg. fst (get_duration env1 ''missing.mp3'') = Inl (FileNotFoundError msg))"
proof -
  have a: "path_exists env1 ''voice.m4a''" "path_exists env1 ''voice.mp3''"
    "\<not> path_exists env1 ''missing.mp3''" "ffmpeg_available env1 = False"
    "getsize env1 ''voice.m4a'' = Some 32000" "getsize env1 ''voice.mp3'' = None"
    by (simp_all add: env1_def)
  have b: "\<not> endswith (lower ''voice.m4a'') ''.wav''" "\<not> endswith (lower ''voice.mp3'') ''.wav''"
    "endswith (lower ''voice.m4a'') ''.m4a''"
    by (simp_all add: endswith_def lower_def lower_char_def suffix_to_prefix)
  show ?thesis
    using get_duration_size_estimate [of env1 "''voice.m4a''"]
      get_duration_size_estimate [of env1 "''voice.mp3''"]
      get_duration_size_estimate [of env1 "''missing.mp3''"] a b
    by simp
qed

subsection \<open>Retries of one generation call\<close>

lemma try_body_Inl:
  "try_outcome env prompt output_dir filename_prefix (invocations w) = Inl msg \<Longrightarrow>
   try_body env prompt output_dir filename_prefix style w =
     (Inl msg, w\<lparr>invocations := invocations w + 1\<rparr>)"
  by (simp add: try_body_def)

lemma try_body_Inr:
  "try_outcome env prompt output_dir filename_prefix (invocations w) = Inr (p, revised) \<Longrightarrow>
   try_body env prompt output_dir filename_prefix style w =
     (Inr p,
      w\<lparr>invocations := invocations w + 1,
        generation_history := generation_history w @
          [\<lparr>h_original_prompt = prompt, h_revised_prompt = revised,
            h_image_path = p, h_style = style\<rparr>],
        prompt_files := prompt_files w @
          [(path_join output_dir (filename_prefix @ ''_prompt.txt''), prompt, revised, style)]\<rparr>)"
  by (simp add: try_body_def)

lemma attempts_exhausted:
  "\<not> attempt < max_retries \<Longrightarrow>
   attempts env prompt output_dir filename_prefix style max_retries attempt w =
     (Inl (Exception ''Failed to generate image after all retries''), w)"
  by (subst attempts.simps) simp

lemma attempts_success:
  "attempt < max_retries \<Longrightarrow>
   try_outcome env prompt output_dir filename_prefix (invocations w) = Inr (p, revised) \<Longrightarrow>
   attempts env prompt output_dir filename_prefix style max_retries attempt w =
     (Inr p,
      w\<lparr>invocations := invocations w + 1,
        generation_history := generation_history w @
          [\<lparr>h_original_prompt = prompt, h_revised_prompt = revised,
            h_image_path = p, h_style = style\<rparr>],
        prompt_files := prompt_files w @
          [(path_join output_dir (filename_prefix @ ''_prompt.txt''), prompt, revised, style)]\<rparr>)"
  by (subst attempts.simps) (simp add: try_body_Inr)

lemma attempts_rate_limit:
  "attempt < max_retries \<Longrightarrow>
   try_outcome env prompt output_dir filename_prefix (invocations w) = Inl msg \<Longrightarrow>
   is_rate_limit msg \<Longrightarrow>
   attempts env prompt output_dir filename_prefix style max_retries attempt w =
     attempts env prompt output_dir filename_prefix style max_retries (attempt + 1)
       (w\<lparr>invocations := invocations w + 1,
          sleeps := sleeps w @ [min (30 * (attempt + 1)) 120]\<rparr>)"
  by (subst attempts.simps) (simp add: try_body_Inl)

lemma attempts_reraise:
  "attempt < max_retries \<Longrightarrow>
   try_outcome env prompt output_dir filename_prefix (invocations w) = Inl msg \<Longrightarrow>
   \<not> is_rate_limit msg \<Longrightarrow> attempt = max_retries - 1 \<Longrightarrow>
   attempts env prompt output_dir filename_prefix style max_retries attempt w =
     (Inl (CollaboratorError msg), w\<lparr>invocations := invocations w + 1\<rparr>)"
  by (subst attempts.simps) (simp add: try_body_Inl)

lemma attempts_brief_pause:
  "attempt < max_retries \<Longrightarrow>
   try_outcome env prompt output_dir filename_prefix (invocations w) = Inl msg \<Longrightarrow>
   \<not> is_rate_limit msg \<Longrightarrow> attempt \<noteq> max_retries - 1 \<Longrightarrow>
   attempts env prompt output_dir filename_prefix style max_retries attempt w =
     attempts env prompt output_dir filename_prefix style max_retries (attempt + 1)
       (w\<lparr>invocations := invocations w + 1, sleeps := sleeps w @ [5]\<rparr>)"
  by (subst attempts.simps) (simp add: try_body_Inl)

text \<open>The delay after a failure of the iteration \<open>attempt\<close> that is followed by a delay.\<close>

lemma attempts_retry:
  assumes "attempt < max_retries"
    and "try_outcome env prompt output_dir filename_prefix (invocations w) = Inl msg"
    and "is_rate_limit msg \<or> attempt + 1 < max_retries"
  shows "attempts env prompt output_dir filename_prefix style max_retries attempt w =
     attempts env prompt output_dir filename_prefix style max_retries (attempt + 1)
       (w\<lparr>invocations := invocations w + 1,
          sleeps := sleeps w @ [if is_rate_limit msg then min (30 * (attempt + 1)) 120 else 5]\<rparr>)"
proof (cases "is_rate_limit msg")
  case True
  then show ?thesis using attempts_rate_limit [OF assms(1,2)] by simp
next
  case False
  then have "attempt \<noteq> max_retries - 1" using assms(3) by linarith
  then show ?thesis using attempts_brief_pause [OF assms(1,2) False] False by simp
qed

lemma attempts_invocations_bound:
  "invocations (snd (attempts env prompt output_dir filename_prefix style max_retries attempt w))
     \<le> invocations w + (max_retries - attempt)"
proof (induction "max_retries - attempt" arbitrary: attempt w)
  case 0
  then show ?case by (simp add: attempts_exhausted)
next
  case (Suc d)
  then have lt: "attempt < max_retries" and d: "d = max_retries - (attempt + 1)" by linarith+
  show ?case
  proof (cases "try_outcome env prompt output_dir filename_prefix (invocations w)")
    case (Inr pr)
    then show ?thesis
      using attempts_success [OF lt, of env prompt output_dir filename_prefix w "fst pr" "snd pr"] lt
      by simp
  next
    case (Inl msg)
    show ?thesis
    proof (cases "is_rate_limit msg \<or> attempt + 1 < max_retries")
      case True
      show ?thesis
        using Suc.hyps(1) [OF d, of "w\<lparr>invocations := invocations w + 1,
          sleeps := sleeps w @ [if is_rate_limit msg then min (30 * (attempt + 1)) 120 else 5]\<rparr>"]
          lt
        by (simp add: attempts_retry [OF lt Inl True])
    next
      case False
      then have "\<not> is_rate_limit msg" "attempt = max_retries - 1" using lt by auto
      then show ?thesis
        using attempts_reraise [OF lt Inl] lt by simp
    qed
  qed
qed

lemma map_upt_shift:
  "f 0 # map (\<lambda>j. f (Suc j)) [0..<k] = map f [0..<Suc k]"
  by (simp add: map_upt_Suc del: upt_Suc)

lemma attempts_first_success:
  assumes "attempt + k < max_retries"
    and "\<forall>j<k. try_outcome env prompt output_dir filename_prefix (invocations w + j) = Inl (msgs j)"
    and "try_outcome env prompt output_dir filename_prefix (invocations w + k) = Inr (p, revised)"
  shows "attempts env prompt output_dir filename_prefix style max_retries attempt w =
     (Inr p,
      w\<lparr>invocations := invocations w + k + 1,
        sleeps := sleeps w @
          map (\<lambda>j. if is_rate_limit (msgs j) then min (30 * (attempt + j + 1)) 120 else 5) [0..<k],
        generation_history := generation_history w @
          [\<lparr>h_original_prompt = prompt, h_revised_prompt = revised,
            h_image_path = p, h_style = style\<rparr>],
        prompt_files := prompt_files w @
          [(path_join output_dir (filename_prefix @ ''_prompt.txt''), prompt, revised, style)]\<rparr>)"
  using assms
proof (induction k arbitrary: attempt w msgs)
  case 0
  then show ?case
    using attempts_success [of attempt max_retries env prompt output_dir filename_prefix w p revised]
    by simp
next
  case (Suc k)
  let ?d = "if is_rate_limit (msgs 0) then min (30 * (attempt + 1)) 120 else 5"
  let ?w = "w\<lparr>invocations := invocations w + 1, sleeps := sleeps w @ [?d]\<rparr>"
  have lt: "attempt < max_retries" and more: "attempt + 1 < max_retries"
    using Suc.prems(1) by linarith+
  have first: "try_outcome env prompt output_dir filename_prefix (invocations w) = Inl (msgs 0)"
    using Suc.prems(2) by (metis add.right_neutral zero_less_Suc)
  have step: "attempts env prompt output_dir filename_prefix style max_retries attempt w =
      attempts env prompt output_dir filename_prefix style max_retries (attempt + 1) ?w"
    using attempts_retry [OF lt first] more by simp
  have a: "(attempt + 1) + k < max_retries" using Suc.prems(1) by simp
  have b: "\<forall>j<k. try_outcome env prompt output_dir filename_prefix (invocations ?w + j)
             = Inl ((msgs \<circ> Suc) j)"
  proof (intro allI impI)
    fix j assume "j < k"
    then have "Suc j < Suc k" by simp
    from Suc.prems(2) [rule_format, OF this]
    show "try_outcome env prompt output_dir filename_prefix (invocations ?w + j)
            = Inl ((msgs \<circ> Suc) j)"
      by simp
  qed
  have c: "try_outcome env prompt output_dir filename_prefix (invocations ?w + k) = Inr (p, revised)"
    using Suc.prems(3) by simp
  define g where "g = (\<lambda>j. if is_rate_limit (msgs j) then min (30 * (attempt + j + 1)) 120 else 5)"
  have g0: "?d = g 0" by (simp add: g_def)
  have gs: "(\<lambda>j. if is_rate_limit ((msgs \<circ> Suc) j)
                 then min (30 * (attempt + 1 + j + 1)) 120 else 5) = (\<lambda>j. g (Suc j))"
    by (simp add: g_def fun_eq_iff)
  have m: "sleeps w @ ?d # map (\<lambda>j. if is_rate_limit ((msgs \<circ> Suc) j)
                 then min (30 * (attempt + 1 + j + 1)) 120 else 5) [0..<k]
           = sleeps w @ map g [0..<Suc k]"
    unfolding g0 gs by (simp only: map_upt_shift)
  show ?case
    unfolding step Suc.IH [OF a b c] g_def [symmetric]
    using m by (simp del: upt_Suc)
qed

lemma attempts_all_fail:
  assumes "attempt < max_retries"
    and "\<forall>j < max_retries - attempt.
           try_outcome env prompt output_dir filename_prefix (invocations w + j) = Inl (msgs j)"
  shows "attempts env prompt output_dir filename_prefix style max_retries attempt w =
     (if is_rate_limit (msgs (max_retries - attempt - 1))
      then (Inl (Exception ''Failed to generate image after all retries''),
            w\<lparr>invocations := invocations w + (max_retries - attempt),
              sleeps := sleeps w @
                map (\<lambda>j. if is_rate_limit (msgs j) then min (30 * (attempt + j + 1)) 120 else 5)
                  [0..<max_retries - attempt]\<rparr>)
      else (Inl (CollaboratorError (msgs (max_retries - attempt - 1))),
            w\<lparr>invocations := invocations w + (max_retries - attempt),
              sleeps := sleeps w @
                map (\<lambda>j. if is_rate_limit (msgs j) then min (30 * (attempt + j + 1)) 120 else 5)
                  [0..<max_retries - attempt - 1]\<rparr>))"
  using assms
proof (induction "max_retries - attempt - 1" arbitrary: attempt w msgs)
  case 0
  then have last: "attempt = max_retries - 1" and one: "max_retries - attempt = 1" by linarith+
  have first: "try_outcome env prompt output_dir filename_prefix (invocations w) = Inl (msgs 0)"
    using "0.prems" by (metis add.right_neutral zero_less_diff)
  show ?case
  proof (cases "is_rate_limit (msgs 0)")
    case True
    have "attempts env prompt output_dir filename_prefix style max_retries attempt w =
      attempts env prompt output_dir filename_prefix style max_retries (attempt + 1)
       (w\<lparr>invocations := invocations w + 1,
          sleeps := sleeps w @ [min (30 * (attempt + 1)) 120]\<rparr>)"
      using attempts_rate_limit [OF "0.prems"(1) first True] .
    also have "\<dots> = (Inl (Exception ''Failed to generate image after all retries''),
        w\<lparr>invocations := invocations w + 1,
          sleeps := sleeps w @ [min (30 * (attempt + 1)) 120]\<rparr>)"
      using one by (intro attempts_exhausted) linarith
    finally show ?thesis using True one "0.hyps" by simp
  next
    case False
    show ?thesis
      using attempts_reraise [OF "0.prems"(1) first False last] False one "0.hyps" by simp
  qed
next
  case (Suc d)
  let ?d = "if is_rate_limit (msgs 0) then min (30 * (attempt + 1)) 120 else 5"
  let ?w = "w\<lparr>invocations := invocations w + 1, sleeps := sleeps w @ [?d]\<rparr>"
  have more: "attempt + 1 < max_retries" and d: "d = max_retries - (attempt + 1) - 1"
    and r: "max_retries - attempt = Suc (max_retries - (attempt + 1))"
    and r1: "max_retries - attempt - 1 = Suc (max_retries - (attempt + 1) - 1)"
    using Suc.hyps(2) by linarith+
  have first: "try_outcome env prompt output_dir filename_prefix (invocations w) = Inl (msgs 0)"
    using Suc.prems by (metis add.right_neutral zero_less_diff)
  have step: "attempts env prompt output_dir filename_prefix style max_retries attempt w =
      attempts env prompt output_dir filename_prefix style max_retries (attempt + 1) ?w"
    using attempts_retry [OF Suc.prems(1) first] more by simp
  have b: "\<forall>j < max_retries - (attempt + 1).
             try_outcome env prompt output_dir filename_prefix (invocations ?w + j)
             = Inl ((msgs \<circ> Suc) j)"
  proof (intro allI impI)
    fix j assume "j < max_retries - (attempt + 1)"
    then have "Suc j < max_retries - attempt" using r by simp
    from Suc.prems(2) [rule_format, OF this]
    show "try_outcome env prompt output_dir filename_prefix (invocations ?w + j)
            = Inl ((msgs \<circ> Suc) j)"
      by simp
  qed
  define g where "g = (\<lambda>j. if is_rate_limit (msgs j) then min (30 * (attempt + j + 1)) 120 else 5)"
  have g0: "?d = g 0" by (simp add: g_def)
  have gs: "(\<lambda>j. if is_rate_limit ((msgs \<circ> Suc) j)
                 then min (30 * (attempt + 1 + j + 1)) 120 else 5) = (\<lambda>j. g (Suc j))"
    by (simp add: g_def fun_eq_iff)
  have m: "sleeps w @ ?d # map (\<lambda>j. if is_rate_limit ((msgs \<circ> Suc) j)
                 then min (30 * (attempt + 1 + j + 1)) 120 else 5) [0..<k]
           = sleeps w @ map g [0..<Suc k]" for k
    unfolding g0 gs by (simp only: map_upt_shift)
  have l: "(msgs \<circ> Suc) (max_retries - (attempt + 1) - 1) = msgs (max_retries - attempt - 1)"
    using r1 by simp
  show ?case
    unfolding step Suc.hyps(1) [OF d more b] l g_def [symmetric]
    unfolding r r1
    using m [of "max_retries - (attempt + 1)"] m [of "max_retries - (attempt + 1) - 1"]
      Suc_diff_Suc [of "Suc attempt" max_retries] more
    by (simp del: upt_Suc)
qed

lemma backoff_sorted: "sorted (map (\<lambda>j. min (30 * (j + 1)) (120::nat)) [0..<k])"
  by (auto simp: sorted_iff_nth_mono min_le_iff_disj)

text \<open>
  Claim C1, as amended. With \<open>outcome j\<close> the outcome of the \<open>j\<close>-th attempt
  of this call and \<open>msgs j\<close> the message of its failure:
  the image service is called at most \<open>max_retries\<close> times (3 by default).
  When the first \<open>k\<close> attempts fail and the next one, still within the budget,
  succeeds, the call returns the image path after exactly \<open>k + 1\<close> calls of
  the service, has slept after each failure (\<open>min (30 * attemptNumber) 120\<close>
  seconds after a failure classified as rate limit, 5 seconds after any
  other), and has added exactly one history entry and one prompt record; the
  delays after rate-limit failures only are in non-decreasing order.
  When all \<open>max_retries\<close> attempts fail, nothing is recorded, and what the last
  failure is decides the end: if it is not classified as rate limit, it is
  re-raised at once with no delay after it; if it is, the backoff delay is
  slept once more and the caller gets the new exception
  \<open>Failed to generate image after all retries\<close>.
\<close>

theorem generate_and_save_image_retry_policy:
  "let R = generate_and_save_image env prompt output_dir filename_prefix style max_retries w;
       outcome = (\<lambda>j. try_outcome env prompt output_dir filename_prefix (invocations w + j));
       delay = (\<lambda>j. if is_rate_limit (msgs j) then min (30 * (j + 1)) 120 else 5)
   in invocations (snd R) \<le> invocations w + max_retries \<and>
      (\<forall>k p revised.
          k < max_retries \<and> (\<forall>j<k. outcome j = Inl (msgs j)) \<and> outcome k = Inr (p, revised) \<longrightarrow>
            fst R = Inr p \<and>
            invocations (snd R) = invocations w + k + 1 \<and>
            sleeps (snd R) = sleeps w @ map delay [0..<k] \<and>
            length (generation_history (snd R)) = length (generation_history w) + 1 \<and>
            length (prompt_files (snd R)) = length (prompt_files w) + 1 \<and>
            ((\<forall>j<k. is_rate_limit (msgs j)) \<longrightarrow> sorted (map delay [0..<k]))) \<and>
      (0 < max_retries \<and> (\<forall>j<max_retries. outcome j = Inl (msgs j)) \<longrightarrow>
          invocations (snd R) = invocations w + max_retries \<and>
          generation_history (snd R) = generation_history w \<and>
          prompt_files (snd R) = prompt_files w \<and>
          (if is_rate_limit (msgs (max_retries - 1))
           then fst R = Inl (Exception ''Failed to generate image after all retries'') \<and>
                sleeps (snd R) = sleeps w @ map delay [0..<max_retries]
           else fst R = Inl (CollaboratorError (msgs (max_retries - 1))) \<and>
                sleeps (snd R) = sleeps w @ map delay [0..<max_retries - 1]))"
proof -
  define R where "R = generate_and_save_image env prompt output_dir filename_prefix style max_retries w"
  define outcome where
    "outcome = (\<lambda>j. try_outcome env prompt output_dir filename_prefix (invocations w + j))"
  define delay where
    "delay = (\<lambda>j. if is_rate_limit (msgs j) then min (30 * (j + 1)) (120::nat) else 5)"
  have R: "R = attempts env prompt output_dir filename_prefix style max_retries 0 w"
    by (simp add: R_def generate_and_save_image_def)
  have bound: "invocations (snd R) \<le> invocations w + max_retries"
    using attempts_invocations_bound [of env prompt output_dir filename_prefix style max_retries 0 w]
    by (simp add: R)
  have success: "fst R = Inr p \<and>
            invocations (snd R) = invocations w + k + 1 \<and>
            sleeps (snd R) = sleeps w @ map delay [0..<k] \<and>
            length (generation_history (snd R)) = length (generation_history w) + 1 \<and>
            length (prompt_files (snd R)) = length (prompt_files w) + 1 \<and>
            ((\<forall>j<k. is_rate_limit (msgs j)) \<longrightarrow> sorted (map delay [0..<k]))"
    if a: "k < max_retries \<and> (\<forall>j<k. outcome j = Inl (msgs j)) \<and> outcome k = Inr (p, revised)"
    for k p revised
  proof -
    have k: "0 + k < max_retries" using a by simp
    have f: "\<forall>j<k. try_outcome env prompt output_dir filename_prefix (invocations w + j) = Inl (msgs j)"
      using a by (simp add: outcome_def)
    have s: "try_outcome env prompt output_dir filename_prefix (invocations w + k) = Inr (p, revised)"
      using a by (simp add: outcome_def)
    have "(\<forall>j<k. is_rate_limit (msgs j)) \<longrightarrow> sorted (map delay [0..<k])"
    proof
      assume "\<forall>j<k. is_rate_limit (msgs j)"
      then have "map delay [0..<k] = map (\<lambda>j. min (30 * (j + 1)) 120) [0..<k]"
        by (simp add: delay_def)
      then show "sorted (map delay [0..<k])" by (simp only: backoff_sorted)
    qed
    then show ?thesis
      unfolding R attempts_first_success [OF k f s, of style] by (simp add: delay_def)
  qed
  have failure: "invocations (snd R) = invocations w + max_retries \<and>
          generation_history (snd R) = generation_history w \<and>
          prompt_files (snd R) = prompt_files w \<and>
          (if is_rate_limit (msgs (max_retries - 1))
           then fst R = Inl (Exception ''Failed to generate image after all retries'') \<and>
                sleeps (snd R) = sleeps w @ map delay [0..<max_retries]
           else fst R = Inl (CollaboratorError (msgs (max_retries - 1))) \<and>
                sleeps (snd R) = sleeps w @ map delay [0..<max_retries - 1])"
    if a: "0 < max_retries \<and> (\<forall>j<max_retries. outcome j = Inl (msgs j))"
  proof -
    have p: "0 < max_retries" using a by simp
    have f: "\<forall>j < max_retries - 0.
               try_outcome env prompt output_dir filename_prefix (invocations w + j) = Inl (msgs j)"
      using a by (simp add: outcome_def)
    show ?thesis
      unfolding R attempts_all_fail [OF p f, of style] by (simp add: delay_def)
  qed
  show ?thesis
    unfolding Let_def R_def [symmetric] outcome_def [symmetric] delay_def [symmetric]
    using bound success failure by blast
qed

text \<open>
  Claim C1 as stated fails. A service that answers all three attempts with a
  rate-limit error: the third attempt fails with that error, and the caller
  receives another exception after 30, 60 and 90 seconds of delay. A service
  that answers all three attempts with another error: two delays of 5
  seconds, none after the third failure.
\<close>

theorem generate_and_save_image_retry_policy_counterexample:
  "try_outcome throttled ''p'' ''out'' ''scene_001'' 2 = Inl ''Error code: 429 - rate_limit_exceeded'' \<and>
   generate_and_save_image throttled ''p'' ''out'' ''scene_001'' ''Cinematic'' 3 world0 =
     (Inl (Exception ''Failed to generate image after all retries''),
      world0\<lparr>invocations := 3, sleeps := [30, 60, 90]\<rparr>) \<and>
   generate_and_save_image broken ''p'' ''out'' ''scene_001'' ''Cinematic'' 3 world0 =
     (Inl (CollaboratorError ''Error code: 400 - content_policy_violation''),
      world0\<lparr>invocations := 3, sleeps := [5, 5]\<rparr>)"
  by code_simp

theorem generate_and_save_image_retry_policy_witness:
  "(2::nat) < 3 \<and>
   try_outcome flaky ''p'' ''out'' ''scene_001'' (invocations world0 + 0) =
     Inl ''Error code: 429 - rate_limit_exceeded'' \<and>
   try_outcome flaky ''p'' ''out'' ''scene_001'' (invocations world0 + 1) =
     Inl ''Error code: 429 - rate_limit_exceeded'' \<and>
   try_outcome flaky ''p'' ''out'' ''scene_001'' (invocations world0 + 2) =
     Inr (''out/scene_001.png'', ''p'') \<and>
   fst (generate_and_save_image flaky ''p'' ''out'' ''scene_001'' ''Cinematic'' 3 world0) =
     Inr ''out/scene_001.png'' \<and>
   invocations (snd (generate_and_save_image flaky ''p'' ''out'' ''scene_001'' ''Cinematic'' 3 world0))
     = 3 \<and>
   sleeps (snd (generate_and_save_image flaky ''p'' ''out'' ''scene_001'' ''Cinematic'' 3 world0))
     = [30, 60] \<and>
   length (generation_history
     (snd (generate_and_save_image flaky ''p'' ''out'' ''scene_001'' ''Cinematic'' 3 world0))) = 1"
proof -
  let ?msg = "''Error code: 429 - rate_limit_exceeded''"
  have rl: "is_rate_limit ?msg" by code_simp
  have h0: "(2::nat) < 3" by simp
  have h1: "\<forall>j<2. try_outcome flaky ''p'' ''out'' ''scene_001'' (invocations world0 + j) = Inl ?msg"
    by (simp add: try_outcome_def flaky_def world0_def)
  have h2: "try_outcome flaky ''p'' ''out'' ''scene_001'' (invocations world0 + 2) =
     Inr (''out/scene_001.png'', ''p'')"
    by (simp add: try_outcome_def flaky_def saves_image_def path_join_def world0_def)
  note t = generate_and_save_image_retry_policy
    [where env = flaky and prompt = "''p''" and output_dir = "''out''"
       and filename_prefix = "''scene_001''" and style = "''Cinematic''" and max_retries = 3
       and w = world0 and msgs = "\<lambda>j. ?msg", unfolded Let_def]
  have "fst (generate_and_save_image flaky ''p'' ''out'' ''scene_001'' ''Cinematic'' 3 world0) =
     Inr ''out/scene_001.png'' \<and>
   invocations (snd (generate_and_save_image flaky ''p'' ''out'' ''scene_001'' ''Cinematic'' 3 world0))
     = invocations world0 + 2 + 1 \<and>
   sleeps (snd (generate_and_save_image flaky ''p'' ''out'' ''scene_001'' ''Cinematic'' 3 world0))
     = sleeps world0 @ map (\<lambda>j. if is_rate_limit ?msg then min (30 * (j + 1)) 120 else 5) [0..<2] \<and>
   length (generation_history
     (snd (generate_and_save_image flaky ''p'' ''out'' ''scene_001'' ''Cinematic'' 3 world0)))
     = length (generation_history world0) + 1"
    using t [THEN conjunct2, THEN conjunct1, rule_format, of 2 "''out/scene_001.png''" "''p''"]
      h0 h1 h2 by blast
  moreover have "try_outcome flaky ''p'' ''out'' ''scene_001'' (invocations world0 + 0) = Inl ?msg"
    "try_outcome flaky ''p'' ''out'' ''scene_001'' (invocations world0 + 1) = Inl ?msg"
    by (simp_all add: try_outcome_def flaky_def world0_def)
  ultimately show ?thesis
    using h0 h2 rl by (simp add: world0_def numeral_2_eq_2)
qed

subsection \<open>The segment loop and the metadata file\<close>

lemma try_outcome_stateless:
  "\<forall>k prompt. images_generate ienv k prompt = images_generate ienv 0 prompt \<Longrightarrow>
   try_outcome ienv prompt output_dir filename_prefix k =
   try_outcome ienv prompt output_dir filename_prefix 0"
  unfolding try_outcome_def by metis

lemma generate_and_save_image_stateless:
  assumes st: "\<forall>k prompt. images_generate ienv k prompt = images_generate ienv 0 prompt"
  shows "fst (generate_and_save_image ienv prompt output_dir filename_prefix style 3 w) =
     (case try_outcome ienv prompt output_dir filename_prefix 0 of
        Inr (p, revised) \<Rightarrow> Inr p
      | Inl msg \<Rightarrow>
          if is_rate_limit msg then Inl (Exception ''Failed to generate image after all retries'')
          else Inl (CollaboratorError msg))"
proof (cases "try_outcome ienv prompt output_dir filename_prefix 0")
  case (Inr pr)
  obtain p revised where pr: "pr = (p, revised)" by (cases pr)
  have s: "try_outcome ienv prompt output_dir filename_prefix (invocations w + 0) = Inr (p, revised)"
    using Inr pr try_outcome_stateless [OF st, of prompt output_dir filename_prefix "invocations w"]
    by simp
  have "fst (attempts ienv prompt output_dir filename_prefix style 3 0 w) = Inr p"
    using attempts_first_success
      [of 0 0 3 ienv prompt output_dir filename_prefix w "\<lambda>j. []" p revised style] s
    by simp
  then show ?thesis by (simp add: generate_and_save_image_def Inr pr)
next
  case (Inl msg)
  have f: "\<forall>j < 3 - 0. try_outcome ienv prompt output_dir filename_prefix (invocations w + j)
             = Inl ((\<lambda>j. msg) j)"
  proof (intro allI impI)
    fix j
    show "try_outcome ienv prompt output_dir filename_prefix (invocations w + j) = Inl msg"
      using Inl try_outcome_stateless [OF st, of prompt output_dir filename_prefix "invocations w + j"]
      by simp
  qed
  have "fst (attempts ienv prompt output_dir filename_prefix style 3 0 w) =
     (if is_rate_limit msg then Inl (Exception ''Failed to generate image after all retries'')
      else Inl (CollaboratorError msg))"
    using attempts_all_fail [of 0 3 ienv prompt output_dir filename_prefix w "\<lambda>j. msg" style, OF _ f]
    by simp
  then show ?thesis by (simp add: generate_and_save_image_def Inl)
qed

lemma generate_images_stateless:
  assumes st: "\<forall>k prompt. images_generate (image env) k prompt = images_generate (image env) 0 prompt"
    and nc: "\<forall>i. \<not> is_cancelled env i"
  shows "i \<le> length z \<Longrightarrow>
     fst (generate_images env ps ts d i (drop i z) acc w) =
     acc @ map (\<lambda>j. \<lparr>img_path = fst (projr (try_outcome (image env)
                         (create_scene_prompt (fst (z ! j)) (param_character_desc ps) (param_style ps) (j + 1))
                         (param_output_dir ps) (scene_prefix (j + 1)) 0)),
                    img_timestamp = snd (z ! j),
                    img_duration = (if j < length ts - 1 then ts ! (j + 1) - snd (z ! j)
                                    else d - snd (z ! j))\<rparr>)
             (filter (\<lambda>j. \<not> isl (try_outcome (image env)
                         (create_scene_prompt (fst (z ! j)) (param_character_desc ps) (param_style ps) (j + 1))
                         (param_output_dir ps) (scene_prefix (j + 1)) 0))
                [i..<length z])"
proof (induction "length z - i" arbitrary: i acc w)
  case 0
  then show ?case by simp
next
  case (Suc n)
  then have lt: "i < length z" and n: "n = length z - Suc i" and le: "Suc i \<le> length z"
    by linarith+
  obtain segment timestamp where zi: "z ! i = (segment, timestamp)" by (cases "z ! i")
  have dr: "drop i z = (segment, timestamp) # drop (Suc i) z"
    using Cons_nth_drop_Suc [OF lt] zi by simp
  have up: "[i..<length z] = i # [Suc i..<length z]"
    using lt by (simp add: upt_conv_Cons)
  let ?prompt = "create_scene_prompt segment (param_character_desc ps) (param_style ps) (i + 1)"
  let ?o = "try_outcome (image env) ?prompt (param_output_dir ps) (scene_prefix (i + 1)) 0"
  let ?g = "generate_and_save_image (image env) ?prompt (param_output_dir ps)
              (scene_prefix (i + 1)) (param_style ps) 3 w"
  obtain r w' where g: "?g = (r, w')" by (cases ?g)
  have r: "r = (case ?o of Inr (p, revised) \<Rightarrow> Inr p
      | Inl msg \<Rightarrow>
          if is_rate_limit msg then Inl (Exception ''Failed to generate image after all retries'')
          else Inl (CollaboratorError msg))"
    using generate_and_save_image_stateless [OF st, of ?prompt "param_output_dir ps"
        "scene_prefix (i + 1)" "param_style ps" w] g by simp
  show ?case
  proof (cases ?o)
    case (Inl msg)
    then obtain e where e: "r = Inl e" using r by (cases "is_rate_limit msg") simp_all
    show ?thesis
      unfolding dr up
      using Suc.hyps(1) [OF n le, of acc w'] nc g e Inl zi
      by simp
  next
    case (Inr pr)
    then have e: "r = Inr (fst pr)" using r by (cases pr) simp
    show ?thesis
      unfolding dr up
      using Suc.hyps(1) [OF n le, of "acc @ [\<lparr>img_path = fst pr, img_timestamp = timestamp,
                      img_duration =
                        (if i < length ts - 1 then ts ! (i + 1) - timestamp
                         else d - timestamp)\<rparr>]" w'] nc g e Inr zi
      by simp
  qed
qed

lemma attempts_metadata_files:
  "metadata_files (snd (attempts env prompt output_dir filename_prefix style max_retries attempt w))
     = metadata_files w"
proof (induction "max_retries - attempt" arbitrary: attempt w)
  case 0
  then show ?case by (simp add: attempts_exhausted)
next
  case (Suc d)
  then have lt: "attempt < max_retries" and d: "d = max_retries - (attempt + 1)" by linarith+
  show ?case
  proof (cases "try_outcome env prompt output_dir filename_prefix (invocations w)")
    case (Inr pr)
    then show ?thesis
      using attempts_success [OF lt, of env prompt output_dir filename_prefix w "fst pr" "snd pr"]
      by simp
  next
    case (Inl msg)
    show ?thesis
    proof (cases "is_rate_limit msg \<or> attempt + 1 < max_retries")
      case True
      show ?thesis
        using Suc.hyps(1) [OF d, of "w\<lparr>invocations := invocations w + 1,
          sleeps := sleeps w @ [if is_rate_limit msg then min (30 * (attempt + 1)) 120 else 5]\<rparr>"]
        by (simp add: attempts_retry [OF lt Inl True])
    next
      case False
      then have "\<not> is_rate_limit msg" "attempt = max_retries - 1" using lt by auto
      then show ?thesis
        using attempts_reraise [OF lt Inl] by simp
    qed
  qed
qed

lemma generate_images_metadata_files:
  "metadata_files (snd (generate_images env ps ts d i z acc w)) = metadata_files w"
proof (induction z arbitrary: i acc w)
  case Nil
  show ?case by simp
next
  case (Cons x z)
  obtain segment timestamp where x: "x = (segment, timestamp)" by (cases x)
  let ?g = "generate_and_save_image (image env)
              (create_scene_prompt segment (param_character_desc ps) (param_style ps) (i + 1))
              (param_output_dir ps) (scene_prefix (i + 1)) (param_style ps) 3 w"
  obtain r w' where g: "?g = (r, w')" by (cases ?g)
  have m: "metadata_files w' = metadata_files w"
    using attempts_metadata_files
      [of "image env" "create_scene_prompt segment (param_character_desc ps) (param_style ps) (i + 1)"
          "param_output_dir ps" "scene_prefix (i + 1)" "param_style ps" 3 0 w] g
    by (simp add: generate_and_save_image_def)
  show ?case
    unfolding x using g m Cons.IH by (cases r) (simp_all add: Let_def)
qed

lemma split_script_length: "split_script script n = Inr segs \<Longrightarrow> length segs = nat n"
  by (auto simp: split_script_def Let_def split: if_splits)

text \<open>
  Claim C2. A run that gets as far as the segment loop (a non-empty API key, a
  readable script, a duration for the voice file, a positive image count) is
  never aborted by a segment: for an image service whose answer depends on
  the prompt only, so that a refused segment is refused on all three
  attempts, and without cancellation, \<open>process_ai_images\<close> returns normally
  and its last effect is to write the metadata file, which lists exactly the
  segments whose generation succeeds, in segment order, each with its
  timestamp \<open>i * (duration / image_count)\<close> and the duration
  \<open>duration / image_count\<close>. This holds for every pattern of refused
  segments, including none and all of them.
\<close>

theorem process_ai_images_skips_failed_segments:
  assumes "api_key env = Some key"
    and "key \<noteq> []"
    and "read_text env (param_script_path ps) = Inr script_text"
    and "fst (get_duration (audio env) (param_voice_path ps)) = Inr d"
    and "0 < param_image_count ps"
    and "split_script script_text (param_image_count ps) = Inr segs"
    and "\<forall>i. \<not> is_cancelled env i"
    and "\<forall>k prompt. images_generate (image env) k prompt = images_generate (image env) 0 prompt"
  shows "\<exists>w'. process_ai_images env ps w = (Inr (), w') \<and>
           metadata_files w' = metadata_files w @
             [(path_join (param_output_dir ps) ''generation_metadata.json'',
               \<lparr>meta_images =
                  map (\<lambda>i. \<lparr>img_path = fst (projr (try_outcome (image env)
                                    (create_scene_prompt (segs ! i) (param_character_desc ps)
                                       (param_style ps) (i + 1))
                                    (param_output_dir ps) (scene_prefix (i + 1)) 0)),
                              img_timestamp = real i * (d / real_of_int (param_image_count ps)),
                              img_duration = d / real_of_int (param_image_count ps)\<rparr>)
                    (filter (\<lambda>i. \<not> isl (try_outcome (image env)
                                    (create_scene_prompt (segs ! i) (param_character_desc ps)
                                       (param_style ps) (i + 1))
                                    (param_output_dir ps) (scene_prefix (i + 1)) 0))
                       [0..<nat (param_image_count ps)]),
                meta_script_path = param_script_path ps,
                meta_voice_path = param_voice_path ps,
                meta_total_duration = d,
                meta_character_description = param_character_desc ps,
                meta_style = param_style ps,
                meta_api = ''OpenAI DALL-E 3''\<rparr>)]"
proof -
  define n where "n = param_image_count ps"
  define N where "N = nat n"
  define sd where "sd = d / real_of_int n"
  define ts where "ts = map (\<lambda>i. real i * sd) [0..<N]"
  define z where "z = zip segs ts"
  have n: "0 < n" using assms(5) by (simp add: n_def)
  have N: "real N = real_of_int n" using n by (simp add: N_def)
  have gt: "generate_timestamps d n = Inr ts"
    using n by (simp add: generate_timestamps_def ts_def sd_def N_def)
  have ls: "length segs = N" using split_script_length [OF assms(6)] by (simp add: N_def n_def)
  have lt: "length ts = N" by (simp add: ts_def)
  have lz: "length z = N" by (simp add: z_def ls lt)
  have zj: "z ! j = (segs ! j, real j * sd)" if "j < N" for j
    using that by (simp add: z_def ls lt ts_def)
  have dur: "(if j < length ts - 1 then ts ! (j + 1) - snd (z ! j) else d - snd (z ! j)) = sd"
    if j: "j < N" for j
  proof (cases "j < N - 1")
    case True
    then have "j + 1 < N" by linarith
    then have "ts ! (j + 1) = real (j + 1) * sd" unfolding ts_def by (simp del: upt_Suc)
    then show ?thesis using True zj [OF j] by (simp add: lt algebra_simps)
  next
    case False
    then have "real j = real N - 1" using j by (simp add: of_nat_diff)
    moreover have "real N * sd = d" using n by (simp add: sd_def N)
    ultimately have "d - real j * sd = real N * sd - (real N - 1) * sd" by simp
    also have "\<dots> = sd" by (simp add: algebra_simps)
    finally show ?thesis using False zj [OF j] by (simp add: lt)
  qed
  obtain gen w1 where gi: "generate_images env ps ts d 0 z [] w = (gen, w1)"
    by (cases "generate_images env ps ts d 0 z [] w")
  let ?o = "\<lambda>i. try_outcome (image env)
                (create_scene_prompt (segs ! i) (param_character_desc ps) (param_style ps) (i + 1))
                (param_output_dir ps) (scene_prefix (i + 1)) 0"
  have "gen = fst (generate_images env ps ts d 0 (drop 0 z) [] w)" using gi by simp
  also have "\<dots> = [] @ map (\<lambda>j. \<lparr>img_path = fst (projr (try_outcome (image env)
                         (create_scene_prompt (fst (z ! j)) (param_character_desc ps) (param_style ps) (j + 1))
                         (param_output_dir ps) (scene_prefix (j + 1)) 0)),
                    img_timestamp = snd (z ! j),
                    img_duration = (if j < length ts - 1 then ts ! (j + 1) - snd (z ! j)
                                    else d - snd (z ! j))\<rparr>)
             (filter (\<lambda>j. \<not> isl (try_outcome (image env)
                         (create_scene_prompt (fst (z ! j)) (param_character_desc ps) (param_style ps) (j + 1))
                         (param_output_dir ps) (scene_prefix (j + 1)) 0))
                [0..<length z])"
    by (rule generate_images_stateless [OF assms(8) assms(7)]) simp
  also have "\<dots> = map (\<lambda>i. \<lparr>img_path = fst (projr (?o i)), img_timestamp = real i * sd,
                              img_duration = sd\<rparr>)
                    (filter (\<lambda>i. \<not> isl (?o i)) [0..<N])"
    unfolding lz append_Nil
  proof (rule map_cong)
    show "filter (\<lambda>j. \<not> isl (try_outcome (image env)
            (create_scene_prompt (fst (z ! j)) (param_character_desc ps) (param_style ps) (j + 1))
            (param_output_dir ps) (scene_prefix (j + 1)) 0)) [0..<N]
        = filter (\<lambda>i. \<not> isl (?o i)) [0..<N]"
      by (rule filter_cong) (simp_all add: zj)
  next
    fix j assume "j \<in> set (filter (\<lambda>i. \<not> isl (?o i)) [0..<N])"
    then have j: "j < N" by simp
    show "\<lparr>img_path = fst (projr (try_outcome (image env)
                 (create_scene_prompt (fst (z ! j)) (param_character_desc ps) (param_style ps) (j + 1))
                 (param_output_dir ps) (scene_prefix (j + 1)) 0)),
            img_timestamp = snd (z ! j),
            img_duration = (if j < length ts - 1 then ts ! (j + 1) - snd (z ! j)
                            else d - snd (z ! j))\<rparr>
        = \<lparr>img_path = fst (projr (?o j)), img_timestamp = real j * sd, img_duration = sd\<rparr>"
      unfolding dur [OF j] by (simp add: zj [OF j])
  qed
  finally have gen: "gen = map (\<lambda>i. \<lparr>img_path = fst (projr (?o i)), img_timestamp = real i * sd,
                              img_duration = sd\<rparr>)
                    (filter (\<lambda>i. \<not> isl (?o i)) [0..<N])" .
  have m: "metadata_files w1 = metadata_files w"
    using generate_images_metadata_files [of env ps ts d 0 z "[]" w] gi by simp
  have "process_ai_images env ps w =
      (Inr (), w1\<lparr>metadata_files := metadata_files w1 @
         [(path_join (param_output_dir ps) ''generation_metadata.json'',
           \<lparr>meta_images = gen,
             meta_script_path = param_script_path ps,
             meta_voice_path = param_voice_path ps,
             meta_total_duration = d,
             meta_character_description = param_character_desc ps,
             meta_style = param_style ps,
             meta_api = ''OpenAI DALL-E 3''\<rparr>)]\<rparr>)"
    using assms(1,2,3,4,6) gt gi
    by (simp add: process_ai_images_def n_def [symmetric] z_def [symmetric])
  then show ?thesis
    unfolding n_def [symmetric] N_def [symmetric] sd_def [symmetric]
    using m gen by simp
qed

lemma run5_images:
  "map (\<lambda>i. \<lparr>img_path = fst (projr (try_outcome scene3_refused
                  (create_scene_prompt
                     ([''one two'', ''three four'', ''five six'', ''seven eight'', ''nine ten''] ! i)
                     ''a fox'' ''Watercolor'' (i + 1))
                  ''out'' (scene_prefix (i + 1)) 0)),
             img_timestamp = real i * (10 / real_of_int 5),
             img_duration = 10 / real_of_int 5\<rparr>)
     (filter (\<lambda>i. \<not> isl (try_outcome scene3_refused
                  (create_scene_prompt
                     ([''one two'', ''three four'', ''five six'', ''seven eight'', ''nine ten''] ! i)
                     ''a fox'' ''Watercolor'' (i + 1))
                  ''out'' (scene_prefix (i + 1)) 0))
        [0..<nat 5])
   = [\<lparr>img_path = ''out/scene_001.png'', img_timestamp = 0, img_duration = 2\<rparr>,
      \<lparr>img_path = ''out/scene_002.png'', img_timestamp = 2, img_duration = 2\<rparr>,
      \<lparr>img_path = ''out/scene_004.png'', img_timestamp = 6, img_duration = 2\<rparr>,
      \<lparr>img_path = ''out/scene_005.png'', img_timestamp = 8, img_duration = 2\<rparr>]"
  by code_simp

theorem process_ai_images_skips_failed_segments_witness:
  "api_key run5 = Some ''sk-test'' \<and> 0 < param_image_count params5 \<and>
   (\<exists>w'. process_ai_images run5 params5 world0 = (Inr (), w') \<and>
      metadata_files w' =
        [(''out/generation_metadata.json'',
          \<lparr>meta_images =
             [\<lparr>img_path = ''out/scene_001.png'', img_timestamp = 0, img_duration = 2\<rparr>,
              \<lparr>img_path = ''out/scene_002.png'', img_timestamp = 2, img_duration = 2\<rparr>,
              \<lparr>img_path = ''out/scene_004.png'', img_timestamp = 6, img_duration = 2\<rparr>,
              \<lparr>img_path = ''out/scene_005.png'', img_timestamp = 8, img_duration = 2\<rparr>],
           meta_script_path = ''script.txt'', meta_voice_path = ''voice.mp3'',
           meta_total_duration = 10, meta_character_description = ''a fox'',
           meta_style = ''Watercolor'', meta_api = ''OpenAI DALL-E 3''\<rparr>)])"
proof -
  have sel: "image run5 = scene3_refused" "param_character_desc params5 = ''a fox''"
    "param_style params5 = ''Watercolor''" "param_output_dir params5 = ''out''"
    "param_image_count params5 = 5" "param_script_path params5 = ''script.txt''"
    "param_voice_path params5 = ''voice.mp3''"
    by (simp_all add: run5_def params5_def)
  have h1: "api_key run5 = Some ''sk-test''" by (simp add: run5_def)
  have hk: "''sk-test'' \<noteq> []" by simp
  have h2: "read_text run5 (param_script_path params5) =
              Inr ''one two three four five six seven eight nine ten''"
    by (simp add: run5_def)
  have h3: "fst (get_duration (audio run5) (param_voice_path params5)) = Inr 10"
    by (simp add: run5_def params5_def get_duration_def duration_from_pydub_def
          estimate_from_size_def endswith_def lower_def lower_char_def suffix_to_prefix)
  have h4: "0 < param_image_count params5" by (simp add: sel)
  have "split_script ''one two three four five six seven eight nine ten'' 5 =
     Inr [''one two'', ''three four'', ''five six'', ''seven eight'', ''nine ten'']"
    by code_simp
  then have h5: "split_script ''one two three four five six seven eight nine ten''
      (param_image_count params5) =
     Inr [''one two'', ''three four'', ''five six'', ''seven eight'', ''nine ten'']"
    by (simp add: sel)
  have h6: "\<forall>i. \<not> is_cancelled run5 i" by (simp add: run5_def)
  have h7: "\<forall>k prompt. images_generate (image run5) k prompt = images_generate (image run5) 0 prompt"
    by (simp add: run5_def scene3_refused_def)
  note t = process_ai_images_skips_failed_segments [OF h1 hk h2 h3 h4 h5 h6 h7, of world0]
  have "\<exists>w'. process_ai_images run5 params5 world0 = (Inr (), w') \<and>
      metadata_files w' =
        [(''out/generation_metadata.json'',
          \<lparr>meta_images =
             [\<lparr>img_path = ''out/scene_001.png'', img_timestamp = 0, img_duration = 2\<rparr>,
              \<lparr>img_path = ''out/scene_002.png'', img_timestamp = 2, img_duration = 2\<rparr>,
              \<lparr>img_path = ''out/scene_004.png'', img_timestamp = 6, img_duration = 2\<rparr>,
              \<lparr>img_path = ''out/scene_005.png'', img_timestamp = 8, img_duration = 2\<rparr>],
           meta_script_path = ''script.txt'', meta_voice_path = ''voice.mp3'',
           meta_total_duration = 10, meta_character_description = ''a fox'',
           meta_style = ''Watercolor'', meta_api = ''OpenAI DALL-E 3''\<rparr>)]"
    using t unfolding sel run5_images by (simp add: path_join_def world0_def)
  then show ?thesis using h1 h4 by simp
qed

subsection \<open>The video synchronised to the audio\<close>

lemma image_clips_readable:
  "\<forall>data \<in> set image_data. imread env (img_path data) \<Longrightarrow>
   image_clips env image_data =
     (Inr (map (\<lambda>data. ImageClip (img_path data) (img_duration data)) image_data),
      map (\<lambda>data. Call_ImageClip (img_path data)) image_data)"
  by (induction image_data) simp_all

lemma image_clips_duration:
  "sum_list (map clip_duration (map (\<lambda>data. ImageClip (img_path data) (img_duration data)) image_data))
     = sum_list (map img_duration image_data)"
  by (induction image_data) (simp_all add: ImageClip_def)

lemma frame_at_negative: "t < 0 \<Longrightarrow> frame_at cs t = Black"
  by (cases cs) simp_all

lemma frame_at_append:
  "\<forall>c \<in> set cs. 0 \<le> clip_duration c \<Longrightarrow> sum_list (map clip_duration cs) \<le> t \<Longrightarrow>
   frame_at (cs @ rest) t = frame_at rest (t - sum_list (map clip_duration cs))"
proof (induction cs arbitrary: t)
  case Nil
  show ?case by simp
next
  case (Cons c cs)
  have c: "0 \<le> clip_duration c" using Cons.prems(1) by simp
  have s: "0 \<le> sum_list (map clip_duration cs)"
    using Cons.prems(1) by (intro sum_list_nonneg) auto
  have t: "clip_duration c \<le> t" "0 \<le> t" using Cons.prems(2) c s by simp_all
  have "frame_at ((c # cs) @ rest) t = frame_at (cs @ rest) (t - clip_duration c)"
    using t by simp
  also have "\<dots> = frame_at rest (t - clip_duration c - sum_list (map clip_duration cs))"
    using Cons.prems by (intro Cons.IH) simp_all
  finally show ?case by (simp add: algebra_simps)
qed

lemma frame_at_last_image:
  assumes "image_data \<noteq> []" and "\<forall>data \<in> set image_data. 0 \<le> img_duration data"
    and "sum_list (map img_duration image_data) - img_duration (last image_data) \<le> t"
    and "t < sum_list (map img_duration image_data)"
  shows "frame_at (map (\<lambda>data. ImageClip (img_path data) (img_duration data)) image_data) t
           = Picture (img_path (last image_data))"
proof -
  obtain front l where il: "image_data = front @ [l]"
    using assms(1) by (metis append_butlast_last_id)
  let ?clip = "\<lambda>data. ImageClip (img_path data) (img_duration data)"
  have fs: "sum_list (map clip_duration (map ?clip front)) = sum_list (map img_duration front)"
    by (rule image_clips_duration)
  have nn: "\<forall>c \<in> set (map ?clip front). 0 \<le> clip_duration c"
    using assms(2) by (simp add: il ImageClip_def)
  have le: "sum_list (map img_duration front) \<le> t" using assms(3) by (simp add: il)
  have lt: "t - sum_list (map img_duration front) < img_duration l" using assms(4) by (simp add: il)
  have "frame_at (map ?clip image_data) t = frame_at (map ?clip front @ [?clip l]) t"
    by (simp add: il)
  also have "\<dots> = frame_at [?clip l] (t - sum_list (map img_duration front))"
    using frame_at_append [OF nn, of t "[?clip l]"] le by (simp only: fs)
  also have "\<dots> = Picture (img_path l)"
    using le lt by (simp add: ImageClip_def)
  finally show ?thesis by (simp add: il)
qed

lemma match_audio_duration_result:
  assumes "make_frame final = frame_at clips" and "clip_audio final = Some a"
    and "clip_duration final = visual"
  shows "\<exists>v. match_audio_duration final total_duration = Inr v \<and>
           clip_duration v = total_duration \<and> clip_audio v = Some a \<and>
           (\<forall>t. t < min visual total_duration \<longrightarrow> make_frame v t = frame_at clips t) \<and>
           (\<forall>t. visual \<le> t \<and> t < total_duration \<longrightarrow> make_frame v t = frame_at clips (visual - 0.1))"
proof -
  consider (longer) "visual > total_duration" | (shorter) "visual < total_duration" | (equal) "visual = total_duration"
    by linarith
  then show ?thesis
  proof cases
    case longer
    then show ?thesis
      using assms by (auto simp: match_audio_duration_def subclip_def)
  next
    case equal
    then show ?thesis
      using assms by (auto simp: match_audio_duration_def)
  next
    case shorter
    define ext where
      "ext = set_duration (to_ImageClip final (visual - 0.1)) (total_duration - visual)"
    define v where
      "v = \<lparr>clip_duration = sum_list (map clip_duration [final, ext]),
              make_frame = frame_at [final, ext], clip_audio = first_audio [final, ext]\<rparr>"
    have m: "match_audio_duration final total_duration = Inr v"
      using shorter assms(3)
      by (simp add: match_audio_duration_def Let_def concatenate_videoclips_def v_def ext_def)
    have d: "clip_duration v = total_duration"
      by (simp add: v_def ext_def set_duration_def to_ImageClip_def assms(3))
    have a: "clip_audio v = Some a" by (simp add: v_def assms(2))
    have before: "make_frame v t = frame_at clips t" if "t < min visual total_duration" for t
    proof (cases "t < 0")
      case True
      then show ?thesis by (simp add: v_def frame_at_negative)
    next
      case False
      then show ?thesis using that by (simp add: v_def assms(1,3))
    qed
    have after: "make_frame v t = frame_at clips (visual - 0.1)" if "visual \<le> t \<and> t < total_duration" for t
    proof (cases "t < 0")
      case True
      then have "visual - 0.1 < 0" using that by simp
      then show ?thesis using True by (simp add: v_def frame_at_negative)
    next
      case False
      then show ?thesis
        using that
        by (simp add: v_def assms(1,3) ext_def set_duration_def to_ImageClip_def)
    qed
    show ?thesis using m d a before after by blast
  qed
qed

text \<open>
  What \<open>create_full_video\<close> does in general. For an audio file that opens, a
  non-empty list of readable images and an encoder that works, it hands the
  encoder a video whose duration is exactly the duration of the audio, with
  the audio attached. Up to the shorter of the two durations it shows the
  images in their order, each for its own duration. Where the images end
  before the audio, the rest shows one still picture, the frame that the
  concatenated images show 0.1 seconds before their end; that is the last
  image only if it lasts longer than 0.1 seconds and no duration is
  negative.
\<close>

lemma create_full_video_matches_audio:
  assumes "AudioFileClip env audio_path = Inr total_duration"
    and "image_data \<noteq> []"
    and "\<forall>data \<in> set image_data. imread env (img_path data)"
    and "write_videofile env (ensure_writable_path env output_path) = None"
  shows "\<exists>v. fst (create_full_video env image_data audio_path output_path) = Inr v \<and>
           clip_duration v = total_duration \<and> clip_audio v = Some audio_path \<and>
           (\<forall>t. t < min (sum_list (map img_duration image_data)) total_duration \<longrightarrow>
                make_frame v t =
                  frame_at (map (\<lambda>data. ImageClip (img_path data) (img_duration data)) image_data) t) \<and>
           (\<forall>t. sum_list (map img_duration image_data) \<le> t \<and> t < total_duration \<longrightarrow>
                make_frame v t =
                  frame_at (map (\<lambda>data. ImageClip (img_path data) (img_duration data)) image_data)
                    (sum_list (map img_duration image_data) - 0.1)) \<and>
           ((\<forall>data \<in> set image_data. 0 \<le> img_duration data) \<and>
            0.1 < img_duration (last image_data) \<longrightarrow>
              frame_at (map (\<lambda>data. ImageClip (img_path data) (img_duration data)) image_data)
                (sum_list (map img_duration image_data) - 0.1)
              = Picture (img_path (last image_data)))"
proof -
  define clips where
    "clips = map (\<lambda>data. ImageClip (img_path data) (img_duration data)) image_data"
  define visual where "visual = sum_list (map img_duration image_data)"
  define final where
    "final = set_audio \<lparr>clip_duration = sum_list (map clip_duration clips),
                          make_frame = frame_at clips, clip_audio = first_audio clips\<rparr> audio_path"
  have ne: "clips \<noteq> []" using assms(2) by (simp add: clips_def)
  have ic: "image_clips env image_data =
      (Inr clips, map (\<lambda>data. Call_ImageClip (img_path data)) image_data)"
    using image_clips_readable [OF assms(3)] by (simp add: clips_def)
  have f1: "make_frame final = frame_at clips" by (simp add: final_def set_audio_def)
  have f2: "clip_audio final = Some audio_path" by (simp add: final_def set_audio_def)
  have f3: "clip_duration final = visual"
    using image_clips_duration [of image_data]
    by (simp add: final_def set_audio_def clips_def visual_def)
  from match_audio_duration_result [OF f1 f2 f3, of total_duration]
  obtain v where v: "match_audio_duration final total_duration = Inr v" "clip_duration v = total_duration"
    "clip_audio v = Some audio_path"
    "\<forall>t. t < min visual total_duration \<longrightarrow> make_frame v t = frame_at clips t"
    "\<forall>t. visual \<le> t \<and> t < total_duration \<longrightarrow> make_frame v t = frame_at clips (visual - 0.1)"
    by blast
  have r: "fst (create_full_video env image_data audio_path output_path) = Inr v"
    using assms(1,4) ic ne v(1)
    by (simp add: create_full_video_def concatenate_videoclips_def final_def Let_def)
  have l: "frame_at clips (visual - 0.1) = Picture (img_path (last image_data))"
    if "(\<forall>data \<in> set image_data. 0 \<le> img_duration data) \<and> 0.1 < img_duration (last image_data)"
    unfolding clips_def visual_def
    using that by (intro frame_at_last_image [OF assms(2)]) simp_all
  show ?thesis
    unfolding clips_def [symmetric] visual_def [symmetric]
    using r v(2-5) l by blast
qed

text \<open>
  Twelve seconds of images are cut to the ten seconds of the audio, and eight
  seconds of images are extended to them.
\<close>

lemma create_full_video_examples:
  "AudioFileClip studio ''voice.mp3'' = Inr 10 \<and>
   sum_list (map img_duration (three_images 4)) = 12 \<and>
   (\<exists>v. fst (create_full_video studio (three_images 4) ''voice.mp3'' ''out.mp4'') = Inr v \<and>
        clip_duration v = 10 \<and> make_frame v 9 = Picture ''c.png'') \<and>
   sum_list (map img_duration (three_images (8 / 3))) = 8 \<and>
   (\<exists>v. fst (create_full_video studio (three_images (8 / 3)) ''voice.mp3'' ''out.mp4'') = Inr v \<and>
        clip_duration v = 10 \<and> make_frame v 9 = Picture ''c.png'')"
proof -
  have h1: "AudioFileClip studio ''voice.mp3'' = Inr 10" by (simp add: studio_def)
  have h2: "three_images d \<noteq> []" for d by (simp add: three_images_def)
  have h3: "\<forall>data \<in> set (three_images d). imread studio (img_path data)" for d
    by (simp add: studio_def)
  have h4: "write_videofile studio (ensure_writable_path studio ''out.mp4'') = None"
    by (simp add: studio_def)
  have s12: "sum_list (map img_duration (three_images 4)) = 12"
    and s8: "sum_list (map img_duration (three_images (8 / 3))) = 8"
    by (simp_all add: three_images_def)
  have long: "\<exists>v. fst (create_full_video studio (three_images 4) ''voice.mp3'' ''out.mp4'') = Inr v \<and>
        clip_duration v = 10 \<and> make_frame v 9 = Picture ''c.png''"
    using create_full_video_matches_audio [OF h1 h2 h3 h4, of 4]
    unfolding s12 by (auto simp: three_images_def ImageClip_def)
  have short: "\<exists>v. fst (create_full_video studio (three_images (8 / 3)) ''voice.mp3'' ''out.mp4'') = Inr v \<and>
        clip_duration v = 10 \<and> make_frame v 9 = Picture ''c.png''"
    using create_full_video_matches_audio [OF h1 h2 h3 h4, of "8 / 3"]
    unfolding s8 by (auto simp: three_images_def ImageClip_def)
  show ?thesis using h1 s12 s8 long short by simp
qed


text \<open>
  Claim C5 does not hold of the code. The duration of the output is the
  duration of the audio, but the picture held to the end is not always the
  last frame: the source takes the frame 0.1 seconds before the end of the
  images (\<open>to_ImageClip(t=final_video.duration-0.1)\<close>, under the comment
  \<open>Extend last frame\<close>). With ten seconds of audio, five seconds of \<open>a.png\<close>
  followed by a twentieth of a second of \<open>b.png\<close> end on \<open>b.png\<close>, and the
  extension holds \<open>a.png\<close>; a sixteenth of a second of \<open>a.png\<close> alone is
  extended by the black background.
\<close>

theorem create_full_video_holds_earlier_frame:
  "sum_list (map img_duration short_last_image) = 5 + 1 / 20 \<and>
   img_path (last short_last_image) = ''b.png'' \<and>
   (\<exists>v. fst (create_full_video studio short_last_image ''voice.mp3'' ''out.mp4'') = Inr v \<and>
        clip_duration v = 10 \<and>
        make_frame v (5 + 1 / 25) = Picture ''b.png'' \<and>
        make_frame v 7 = Picture ''a.png'') \<and>
   (\<exists>v. fst (create_full_video studio brief_image ''voice.mp3'' ''out.mp4'') = Inr v \<and>
        clip_duration v = 10 \<and>
        make_frame v (1 / 32) = Picture ''a.png'' \<and>
        make_frame v 7 = Black)"
proof -
  have h1: "AudioFileClip studio ''voice.mp3'' = Inr 10" by (simp add: studio_def)
  have h4: "write_videofile studio (ensure_writable_path studio ''out.mp4'') = None"
    by (simp add: studio_def)
  have s: "sum_list (map img_duration short_last_image) = 5 + 1 / 20"
    and l: "img_path (last short_last_image) = ''b.png''"
    and b: "sum_list (map img_duration brief_image) = 1 / 16"
    by (simp_all add: short_last_image_def brief_image_def)
  have two: "\<exists>v. fst (create_full_video studio short_last_image ''voice.mp3'' ''out.mp4'') = Inr v \<and>
        clip_duration v = 10 \<and>
        make_frame v (5 + 1 / 25) = Picture ''b.png'' \<and>
        make_frame v 7 = Picture ''a.png''"
  proof -
    have n: "short_last_image \<noteq> []" by (simp add: short_last_image_def)
    have r: "\<forall>data \<in> set short_last_image. imread studio (img_path data)"
      by (simp add: studio_def)
    from create_full_video_matches_audio [OF h1 n r h4]
    obtain v where v: "fst (create_full_video studio short_last_image ''voice.mp3'' ''out.mp4'') = Inr v"
      "clip_duration v = 10"
      "\<forall>t. t < min (sum_list (map img_duration short_last_image)) 10 \<longrightarrow>
         make_frame v t =
           frame_at (map (\<lambda>data. ImageClip (img_path data) (img_duration data)) short_last_image) t"
      "\<forall>t. sum_list (map img_duration short_last_image) \<le> t \<and> t < 10 \<longrightarrow>
         make_frame v t =
           frame_at (map (\<lambda>data. ImageClip (img_path data) (img_duration data)) short_last_image)
             (sum_list (map img_duration short_last_image) - 0.1)"
      by blast
    have "make_frame v (5 + 1 / 25) = Picture ''b.png''"
      using v(3) [rule_format, of "5 + 1 / 25"] unfolding s
      by (simp add: short_last_image_def ImageClip_def)
    moreover have "make_frame v 7 = Picture ''a.png''"
      using v(4) [rule_format, of 7] unfolding s
      by (simp add: short_last_image_def ImageClip_def)
    ultimately show ?thesis using v(1,2) by blast
  qed
  have one: "\<exists>v. fst (create_full_video studio brief_image ''voice.mp3'' ''out.mp4'') = Inr v \<and>
        clip_duration v = 10 \<and>
        make_frame v (1 / 32) = Picture ''a.png'' \<and>
        make_frame v 7 = Black"
  proof -
    have n: "brief_image \<noteq> []" by (simp add: brief_image_def)
    have r: "\<forall>data \<in> set brief_image. imread studio (img_path data)"
      by (simp add: studio_def)
    from create_full_video_matches_audio [OF h1 n r h4]
    obtain v where v: "fst (create_full_video studio brief_image ''voice.mp3'' ''out.mp4'') = Inr v"
      "clip_duration v = 10"
      "\<forall>t. t < min (sum_list (map img_duration brief_image)) 10 \<longrightarrow>
         make_frame v t =
           frame_at (map (\<lambda>data. ImageClip (img_path data) (img_duration data)) brief_image) t"
      "\<forall>t. sum_list (map img_duration brief_image) \<le> t \<and> t < 10 \<longrightarrow>
         make_frame v t =
           frame_at (map (\<lambda>data. ImageClip (img_path data) (img_duration data)) brief_image)
             (sum_list (map img_duration brief_image) - 0.1)"
      by blast
    have "make_frame v (1 / 32) = Picture ''a.png''"
      using v(3) [rule_format, of "1 / 32"] unfolding b
      by (simp add: brief_image_def ImageClip_def)
    moreover have "make_frame v 7 = Black"
      using v(4) [rule_format, of 7] unfolding b
      by (simp add: brief_image_def ImageClip_def)
    ultimately show ?thesis using v(1,2) by blast
  qed
  show ?thesis using s l two one by blast
qed

text \<open>
  Claim C8 does not hold of the code. \<open>create_full_video\<close> has no check for an
  empty list of images: it opens the audio file first, which reaches the
  decoder, and then fails with the exception of opening it or, when it opens,
  with the exception that the library raises on concatenating no clips.
\<close>

theorem create_full_video_no_artifacts:
  "snd (create_full_video env [] audio_path output_path) = [Call_AudioFileClip audio_path] \<and>
   fst (create_full_video env [] audio_path output_path) =
     (case AudioFileClip env audio_path of
        Inl e \<Rightarrow> Inl e
      | Inr total_duration \<Rightarrow> Inl (CollaboratorError ''max() arg is an empty sequence''))"
  by (simp add: create_full_video_def concatenate_videoclips_def split: sum.splits)

end
